theory Spec2Isabelle
  imports Main "HOL-Library.Sublist"
begin

section \<open>The ctags parser of the prototype generator (package ctags)\<close>

text \<open>
  Go strings are byte sequences; they are modelled as \<open>string\<close> (a list of 8-bit
  characters). A run-time panic of the Go code is a value \<open>Inl e\<close> of the result type
  \<open>error + 'a\<close>.
\<close>

datatype error = IndexOutOfRange | SliceBoundsOutOfRange

abbreviation TAB :: char where "TAB \<equiv> CHR 0x09"
abbreviation NL :: char where "NL \<equiv> CHR 0x0A"
abbreviation DQUOTE :: char where "DQUOTE \<equiv> CHR 0x22"
abbreviation BACKSLASH :: char where "BACKSLASH \<equiv> CHR 0x5C"

subsection \<open>The functions of Go's standard library that the parser calls\<close>

text \<open>\<open>strings.Index(s, substr)\<close>: the index of the first instance of \<open>substr\<close> in
  \<open>s\<close>, or \<open>-1\<close> when there is none.\<close>

fun strings_Index :: "string \<Rightarrow> string \<Rightarrow> int" where
  "strings_Index [] substr = (if substr = [] then 0 else -1)"
| "strings_Index (c # s) substr =
     (if prefix substr (c # s) then 0
      else (let r = strings_Index s substr in if r < 0 then -1 else r + 1))"

text \<open>\<open>strings.LastIndex(s, substr)\<close>: the index of the last instance, or \<open>-1\<close>.\<close>

definition strings_LastIndex :: "string \<Rightarrow> string \<Rightarrow> int" where
  "strings_LastIndex s substr =
     (let r = strings_Index (rev s) (rev substr)
      in if r < 0 then -1 else int (length s) - int (length substr) - r)"

definition strings_Contains :: "string \<Rightarrow> string \<Rightarrow> bool" where
  "strings_Contains s substr = (strings_Index s substr \<ge> 0)"

text \<open>\<open>strings.Replace(s, old, new, -1)\<close>: every non-overlapping instance of
  \<open>old\<close> replaced, scanning from the left. The parser calls it with a non-empty
  \<open>old\<close> only; for an empty \<open>old\<close> (where Go inserts \<open>new\<close> between the runes) this
  model returns \<open>s\<close>.\<close>

fun strings_ReplaceAll :: "string \<Rightarrow> string \<Rightarrow> string \<Rightarrow> string" where
  "strings_ReplaceAll [] old new = []"
| "strings_ReplaceAll (c # s) old new =
     (if old \<noteq> [] \<and> prefix old (c # s)
      then new @ strings_ReplaceAll (drop (length old - 1) s) old new
      else c # strings_ReplaceAll s old new)"

text \<open>\<open>strings.Split(s, sep)\<close> for a separator of one byte (the parser splits on
  \<open>"\n"\<close> and \<open>"\t"\<close>): the pieces between the separators, always at least one.\<close>

fun strings_Split :: "string \<Rightarrow> char \<Rightarrow> string list" where
  "strings_Split [] sep = [[]]"
| "strings_Split (c # s) sep =
     (if c = sep then [] # strings_Split s sep
      else (case strings_Split s sep of
              [] \<Rightarrow> [[c]]
            | w # ws \<Rightarrow> (c # w) # ws))"

text \<open>\<open>strings.TrimSpace(s)\<close> removes leading and trailing white space as defined by
  Unicode. Go decodes the string as UTF-8, one rune at a time from the left and then from
  the right; a rune is white space exactly when its bytes are one of the encodings below
  (U+0009..U+000D, U+0020, U+0085, U+00A0, U+1680, U+2000..U+200A, U+2028, U+2029, U+202F,
  U+205F, U+3000). A byte sequence that is not valid UTF-8 decodes to U+FFFD, which is not
  white space.\<close>

definition spaceRunes :: "string list" where
  "spaceRunes =
     [[CHR 0x09], [CHR 0x0A], [CHR 0x0B], [CHR 0x0C], [CHR 0x0D], [CHR 0x20],
      [CHR 0xC2, CHR 0x85], [CHR 0xC2, CHR 0xA0],
      [CHR 0xE1, CHR 0x9A, CHR 0x80],
      [CHR 0xE2, CHR 0x80, CHR 0x80], [CHR 0xE2, CHR 0x80, CHR 0x81],
      [CHR 0xE2, CHR 0x80, CHR 0x82], [CHR 0xE2, CHR 0x80, CHR 0x83],
      [CHR 0xE2, CHR 0x80, CHR 0x84], [CHR 0xE2, CHR 0x80, CHR 0x85],
      [CHR 0xE2, CHR 0x80, CHR 0x86], [CHR 0xE2, CHR 0x80, CHR 0x87],
      [CHR 0xE2, CHR 0x80, CHR 0x88], [CHR 0xE2, CHR 0x80, CHR 0x89],
      [CHR 0xE2, CHR 0x80, CHR 0x8A],
      [CHR 0xE2, CHR 0x80, CHR 0xA8], [CHR 0xE2, CHR 0x80, CHR 0xA9],
      [CHR 0xE2, CHR 0x80, CHR 0xAF],
      [CHR 0xE2, CHR 0x81, CHR 0x9F],
      [CHR 0xE3, CHR 0x80, CHR 0x80]]"

text \<open>Strip from the front of \<open>s\<close> every leading occurrence of one of the words
  \<open>ws\<close>.\<close>

fun stripLeading :: "string list \<Rightarrow> string \<Rightarrow> string" where
  "stripLeading ws [] = []"
| "stripLeading ws (c # s) =
     (case filter (\<lambda>w. w \<noteq> [] \<and> prefix w (c # s)) ws of
        [] \<Rightarrow> c # s
      | w # _ \<Rightarrow> stripLeading ws (drop (length w - 1) s))"

definition strings_TrimSpace :: "string \<Rightarrow> string" where
  "strings_TrimSpace s =
     rev (stripLeading (map rev spaceRunes) (rev (stripLeading spaceRunes s)))"

text \<open>\<open>strconv.Atoi(s)\<close> is \<open>ParseInt(s, 10, 0)\<close> converted to \<open>int\<close>, which has
  64 bits on the platforms the tool is built for. It returns a value and an error; on a
  syntax error the value is 0, on a range error it is the largest magnitude of the sign.
  \<open>ParseUint\<close> reads the digits from the left and returns at the first byte that is not
  a digit or at the first overflow, whichever comes first. The \<open>uint64\<close> accumulator is
  a non-negative \<open>int\<close> here, with the overflow tests written out.\<close>

datatype NumError = ErrSyntax | ErrRange

definition maxUint64 :: int where "maxUint64 = 18446744073709551615"

definition maxInt64 :: int where "maxInt64 = 9223372036854775807"

definition minInt64 :: int where "minInt64 = - 9223372036854775808"

definition isDigit :: "char \<Rightarrow> bool" where
  "isDigit c = (48 \<le> (of_char c :: int) \<and> (of_char c :: int) \<le> 57)"

fun ParseUint_loop :: "int \<Rightarrow> string \<Rightarrow> int \<times> NumError option" where
  "ParseUint_loop n [] = (n, None)"
| "ParseUint_loop n (c # s) =
     (if \<not> isDigit c then (0, Some ErrSyntax)
      else if n \<ge> maxUint64 div 10 + 1 then (maxUint64, Some ErrRange)
      else (let n1 = n * 10 + (of_char c - 48)
            in if n1 > maxUint64 then (maxUint64, Some ErrRange)
               else ParseUint_loop n1 s))"

definition ParseUint :: "string \<Rightarrow> int \<times> NumError option" where
  "ParseUint s = (if s = [] then (0, Some ErrSyntax) else ParseUint_loop 0 s)"

definition ParseInt :: "string \<Rightarrow> int \<times> NumError option" where
  "ParseInt s =
     (if s = [] then (0, Some ErrSyntax)
      else (let neg = (hd s = CHR ''-'');
                s' = (if hd s = CHR ''+'' \<or> hd s = CHR ''-'' then tl s else s);
                (un, err) = ParseUint s'
            in if err = Some ErrSyntax then (0, err)
               else if \<not> neg \<and> un \<ge> maxInt64 + 1 then (maxInt64, Some ErrRange)
               else if neg \<and> un > maxInt64 + 1 then (minInt64, Some ErrRange)
               else (if neg then - un else un, None)))"

definition Atoi :: "string \<Rightarrow> int \<times> NumError option" where
  "Atoi s = ParseInt s"

text \<open>A slice expression \<open>s[lo:hi]\<close> panics unless \<open>0 \<le> lo \<le> hi \<le> len(s)\<close>; an
  index expression \<open>xs[i]\<close> panics unless \<open>i < len(xs)\<close>.\<close>

definition slice :: "string \<Rightarrow> int \<Rightarrow> int \<Rightarrow> error + string" where
  "slice s lo hi =
     (if 0 \<le> lo \<and> lo \<le> hi \<and> hi \<le> int (length s)
      then Inr (take (nat (hi - lo)) (drop (nat lo) s))
      else Inl SliceBoundsOutOfRange)"

definition index :: "'a list \<Rightarrow> nat \<Rightarrow> error + 'a" where
  "index xs i = (if i < length xs then Inr (xs ! i) else Inl IndexOutOfRange)"

subsection \<open>Tags and the parser state\<close>

text \<open>Modelled from the spec: the declaration of the struct \<open>types.CTag\<close> (package
  \<open>legacy/builder/types\<close>) is not among the sources. The record has the fields that the
  parser reads and writes, under the names the parser uses, with the types that section 3
  of the specification gives them (\<open>name\<close>, \<open>kind\<close>, \<open>line\<close>, \<open>codeSnippet\<close>,
  \<open>enclosingClass\<close>, \<open>enclosingStruct\<close>, \<open>enclosingNamespace\<close>, \<open>sourceFile\<close>,
  \<open>typeRef\<close>, \<open>suppressed\<close>, \<open>signature\<close>, \<open>declarationText\<close>,
  \<open>declarationModifiers\<close>).\<close>

record CTag =
  FunctionName :: string
  Kind :: string
  Line :: int
  Code :: string
  Class :: string
  Struct :: string
  Namespace :: string
  Filename :: string
  Typeref :: string
  SkipMe :: bool
  Signature :: string
  Prototype :: string
  PrototypeModifiers :: string

text \<open>The zero value \<open>&types.CTag{}\<close>.\<close>

definition emptyTag :: CTag where
  "emptyTag =
     \<lparr>FunctionName = [], Kind = [], Line = 0, Code = [], Class = [], Struct = [],
      Namespace = [], Filename = [], Typeref = [], SkipMe = False, Signature = [],
      Prototype = [], PrototypeModifiers = []\<rparr>"

abbreviation KIND_PROTOTYPE :: string where "KIND_PROTOTYPE \<equiv> ''prototype''"
abbreviation KIND_FUNCTION :: string where "KIND_FUNCTION \<equiv> ''function''"
abbreviation TEMPLATE :: string where "TEMPLATE \<equiv> ''template''"
abbreviation STATIC :: string where "STATIC \<equiv> ''static''"

text \<open>The map \<open>KNOWN_TAG_KINDS\<close>; a key that is not in a Go map reads as \<open>false\<close>.\<close>

definition KNOWN_TAG_KINDS :: "string \<Rightarrow> bool" where
  "KNOWN_TAG_KINDS k = (k = ''prototype'' \<or> k = ''function'')"

text \<open>The parser owns the tags (pointers to tags that \<open>parseTag\<close> allocates one by
  one, so no two entries share a tag) and the path of the main file, \<open>None\<close> for
  \<open>nil\<close>.\<close>

record CTagsParser =
  tags :: "CTag list"
  mainFile :: "string option"

subsection \<open>Decoding one row: \<open>parseTag\<close>\<close>

text \<open>The body of the loop over \<open>parts[2:]\<close>; the state is the tag and the local
  variable \<open>returntype\<close>.\<close>

fun parseField :: "CTag \<times> string \<Rightarrow> string \<Rightarrow> error + CTag \<times> string" where
  "parseField (tag, returntype) part =
     (if strings_Contains part '':'' then
        (let colon = strings_Index part '':'' in
         case slice part 0 colon of
           Inl e \<Rightarrow> Inl e
         | Inr field \<Rightarrow>
            (case slice part (colon + 1) (int (length part)) of
               Inl e \<Rightarrow> Inl e
             | Inr rest \<Rightarrow>
                (let val = strings_TrimSpace rest in
                 if field = ''kind'' then Inr (tag\<lparr>Kind := val\<rparr>, returntype)
                 else if field = ''line'' then Inr (tag\<lparr>Line := fst (Atoi val)\<rparr>, returntype)
                 else if field = ''typeref'' then Inr (tag\<lparr>Typeref := val\<rparr>, returntype)
                 else if field = ''signature'' then Inr (tag\<lparr>Signature := val\<rparr>, returntype)
                 else if field = ''returntype'' then Inr (tag, val)
                 else if field = ''class'' then Inr (tag\<lparr>Class := val\<rparr>, returntype)
                 else if field = ''struct'' then Inr (tag\<lparr>Struct := val\<rparr>, returntype)
                 else if field = ''namespace'' then Inr (tag\<lparr>Namespace := val\<rparr>, returntype)
                 else Inr (tag, returntype))))
      else Inr (tag, returntype))"

fun parseFields :: "CTag \<times> string \<Rightarrow> string list \<Rightarrow> error + CTag \<times> string" where
  "parseFields st [] = Inr st"
| "parseFields st (part # parts) =
     (case parseField st part of
        Inl e \<Rightarrow> Inl e
      | Inr st' \<Rightarrow> parseFields st' parts)"

definition parseTag :: "string \<Rightarrow> error + CTag" where
  "parseTag row =
     (let parts = strings_Split row TAB in
      case index parts 0 of
        Inl e \<Rightarrow> Inl e
      | Inr name \<Rightarrow>
         (case index parts 1 of
            Inl e \<Rightarrow> Inl e
          | Inr file \<Rightarrow>
             (let tag = emptyTag\<lparr>FunctionName := name,
                          Filename := strings_ReplaceAll file [BACKSLASH, BACKSLASH] [BACKSLASH]\<rparr>
              in case parseFields (tag, []) (drop 2 parts) of
                   Inl e \<Rightarrow> Inl e
                 | Inr (tag, returntype) \<Rightarrow>
                    (let tag = tag\<lparr>Prototype :=
                                 returntype @ '' '' @ FunctionName tag @ Signature tag @ '';''\<rparr>
                     in if strings_Contains row ''/^'' \<and> strings_Contains row ''$/;''
                        then (case slice row (strings_Index row ''/^'' + 2)
                                                (strings_Index row ''$/;'') of
                                Inl e \<Rightarrow> Inl e
                              | Inr code \<Rightarrow> Inr (tag\<lparr>Code := code\<rparr>))
                        else Inr tag))))"

fun removeEmpty :: "string list \<Rightarrow> string list" where
  "removeEmpty [] = []"
| "removeEmpty (row # rows) =
     (let row = strings_TrimSpace row
      in if length row > 0 then row # removeEmpty rows else removeEmpty rows)"

subsection \<open>The filter stages\<close>

text \<open>\<open>skipTagsWhere\<close> takes a function value of type
  \<open>skipFuncType = func(tag *types.CTag) bool\<close>, here a predicate on tags.\<close>

definition skipTagsWhere :: "(CTag \<Rightarrow> bool) \<Rightarrow> CTag list \<Rightarrow> CTag list" where
  "skipTagsWhere skipFunc ts =
     map (\<lambda>tag. if \<not> SkipMe tag then tag\<lparr>SkipMe := skipFunc tag\<rparr> else tag) ts"

definition isHandled :: "CTag \<Rightarrow> bool" where
  "isHandled tag =
     (if Class tag \<noteq> [] then False
      else if Struct tag \<noteq> [] then False
      else if Namespace tag \<noteq> [] then False
      else True)"

definition tagIsUnhandled :: "CTag \<Rightarrow> bool" where
  "tagIsUnhandled tag = (\<not> isHandled tag)"

definition tagIsUnknown :: "CTag \<Rightarrow> bool" where
  "tagIsUnknown tag = (\<not> KNOWN_TAG_KINDS (Kind tag))"

text \<open>\<open>addPrototype\<close> calls \<open>findTemplateMultiline\<close>, a function of the package that
  is not among the sources (it reads the lines of the source file of the tag); it is a
  parameter here, any function from the tag to the text it returns.\<close>

definition addPrototype :: "(CTag \<Rightarrow> string) \<Rightarrow> CTag \<Rightarrow> error + CTag" where
  "addPrototype findTemplateMultiline tag =
     (if strings_Index (Prototype tag) TEMPLATE = 0 then
        (if strings_Index (Code tag) TEMPLATE = 0 then
           (let code = Code tag in
            case (if strings_Contains code ''{''
                  then slice code 0 (strings_Index code ''{'')
                  else slice code 0 (strings_LastIndex code '')'' + 1)) of
              Inl e \<Rightarrow> Inl e
            | Inr code \<Rightarrow> Inr (tag\<lparr>Prototype := code @ '';''\<rparr>))
         else (let code = findTemplateMultiline tag
               in Inr (tag\<lparr>Prototype := code @ '';''\<rparr>)))
      else
        (let tag = tag\<lparr>PrototypeModifiers := []\<rparr>;
             tag = (if strings_Contains (Code tag) (STATIC @ '' '')
                    then tag\<lparr>PrototypeModifiers := PrototypeModifiers tag @ '' '' @ STATIC\<rparr>
                    else tag)
         in Inr (tag\<lparr>PrototypeModifiers := strings_TrimSpace (PrototypeModifiers tag)\<rparr>)))"

fun addPrototypes :: "(CTag \<Rightarrow> string) \<Rightarrow> CTag list \<Rightarrow> error + CTag list" where
  "addPrototypes findTemplateMultiline [] = Inr []"
| "addPrototypes findTemplateMultiline (tag # ts) =
     (case (if \<not> SkipMe tag then addPrototype findTemplateMultiline tag else Inr tag) of
        Inl e \<Rightarrow> Inl e
      | Inr tag' \<Rightarrow>
         (case addPrototypes findTemplateMultiline ts of
            Inl e \<Rightarrow> Inl e
          | Inr ts' \<Rightarrow> Inr (tag' # ts')))"

text \<open>The first loop of \<open>removeDefinedProtypes\<close> fills the map
  \<open>definedPrototypes\<close>, the second one marks the tags.\<close>

fun collectDefined :: "(string \<Rightarrow> bool) \<Rightarrow> CTag list \<Rightarrow> (string \<Rightarrow> bool)" where
  "collectDefined definedPrototypes [] = definedPrototypes"
| "collectDefined definedPrototypes (tag # ts) =
     collectDefined
       (if Kind tag = KIND_PROTOTYPE then definedPrototypes(Prototype tag := True)
        else definedPrototypes) ts"

definition removeDefinedProtypes :: "CTag list \<Rightarrow> CTag list" where
  "removeDefinedProtypes ts =
     (let definedPrototypes = collectDefined (\<lambda>k. False) ts
      in map (\<lambda>tag. if definedPrototypes (Prototype tag) then tag\<lparr>SkipMe := True\<rparr> else tag) ts)"

fun skipDuplicates_loop :: "(string \<Rightarrow> bool) \<Rightarrow> CTag list \<Rightarrow> CTag list" where
  "skipDuplicates_loop definedPrototypes [] = []"
| "skipDuplicates_loop definedPrototypes (tag # ts) =
     (if \<not> definedPrototypes (Prototype tag) \<and> \<not> SkipMe tag
      then tag # skipDuplicates_loop (definedPrototypes(Prototype tag := True)) ts
      else tag\<lparr>SkipMe := True\<rparr> # skipDuplicates_loop definedPrototypes ts)"

definition skipDuplicates :: "CTag list \<Rightarrow> CTag list" where
  "skipDuplicates ts = skipDuplicates_loop (\<lambda>k. False) ts"

subsection \<open>The pipeline: \<open>CTagsParser.Parse\<close>\<close>

text \<open>The loop \<open>p.tags = append(p.tags, parseTag(row))\<close>.\<close>

fun parseRows :: "CTag list \<Rightarrow> string list \<Rightarrow> error + CTag list" where
  "parseRows acc [] = Inr acc"
| "parseRows acc (row # rows) =
     (case parseTag row of
        Inl e \<Rightarrow> Inl e
      | Inr tag \<Rightarrow> parseRows (acc @ [tag]) rows)"

text \<open>\<open>Parse\<close> returns \<open>p.tags\<close>; the model returns the parser after the call, whose
  field \<open>tags\<close> is that list. The last stage is \<open>p.prototypeAndCodeDontMatch\<close>, a
  method that is not among the sources; like \<open>findTemplateMultiline\<close> it is a parameter.
  It has the type \<open>skipFuncType\<close> of the other two filters, and section 4.6 of the
  specification makes it a filter that inspects the declaration and the snippet of a tag
  and does nothing but decide whether to suppress it: the parameter is any predicate on
  tags.\<close>

definition Parse ::
  "(CTag \<Rightarrow> string) \<Rightarrow> (CTag \<Rightarrow> bool) \<Rightarrow> CTagsParser \<Rightarrow> string \<Rightarrow> string option
     \<Rightarrow> error + CTagsParser" where
  "Parse findTemplateMultiline prototypeAndCodeDontMatch p ctagsOutput mainFile' =
     (let rows = strings_Split ctagsOutput NL;
          rows = removeEmpty rows;
          p = p\<lparr>mainFile := mainFile'\<rparr>
      in case parseRows (tags p) rows of
           Inl e \<Rightarrow> Inl e
         | Inr ts \<Rightarrow>
            (let ts = skipTagsWhere tagIsUnknown ts;
                 ts = skipTagsWhere tagIsUnhandled ts
             in case addPrototypes findTemplateMultiline ts of
                  Inl e \<Rightarrow> Inl e
                | Inr ts \<Rightarrow>
                   (let ts = removeDefinedProtypes ts;
                        ts = skipDuplicates ts;
                        ts = skipTagsWhere prototypeAndCodeDontMatch ts
                    in Inr (p\<lparr>tags := ts\<rparr>))))"

text \<open>A parser that has not parsed anything yet, \<open>CTagsParser{}\<close>.\<close>

definition newParser :: CTagsParser where
  "newParser = \<lparr>tags = [], mainFile = None\<rparr>"

subsection \<open>Notions used in the statements\<close>

text \<open>The fields of a tag that the decoder fills from the row and that no stage writes
  afterwards.\<close>

definition decodedFields ::
  "CTag \<Rightarrow> string \<times> string \<times> string \<times> int \<times> string \<times> string \<times> string \<times> string \<times> string \<times> string" where
  "decodedFields tag =
     (FunctionName tag, Filename tag, Kind tag, Line tag, Typeref tag, Signature tag,
      Class tag, Struct tag, Namespace tag, Code tag)"

text \<open>\<open>suppressesOnly t t'\<close>: the tag \<open>t'\<close> is the tag \<open>t\<close> with at most the flag
  \<open>SkipMe\<close> changed, and not from true to false.\<close>

definition suppressesOnly :: "CTag \<Rightarrow> CTag \<Rightarrow> bool" where
  "suppressesOnly t t' =
     (t'\<lparr>SkipMe := True\<rparr> = t\<lparr>SkipMe := True\<rparr> \<and> (SkipMe t \<longrightarrow> SkipMe t'))"

text \<open>The rule of section 4.3 of the specification for a template declaration whose
  snippet begins with \<open>template\<close>, in the words of the specification: everything up to
  the first \<open>{\<close> if one is present, otherwise everything up to and including the last
  \<open>)\<close>, with \<open>;\<close> appended.\<close>

definition rebuildFromSnippet :: "string \<Rightarrow> string" where
  "rebuildFromSnippet snippet =
     (if CHR ''{'' \<in> set snippet
      then takeWhile (\<lambda>c. c \<noteq> CHR ''{'') snippet
      else rev (dropWhile (\<lambda>c. c \<noteq> CHR '')'') (rev snippet))) @ '';''"

text \<open>\<open>rowDecodable row\<close>: the row has a tab, so that \<open>parts[1]\<close> exists, and, when
  both markers of the snippet occur, the end of the first \<open>/^\<close> is not behind the start
  of the first \<open>$/;\<close>.\<close>

definition rowDecodable :: "string \<Rightarrow> bool" where
  "rowDecodable row =
     (TAB \<in> set row \<and>
      (strings_Contains row ''/^'' \<and> strings_Contains row ''$/;''
         \<longrightarrow> strings_Index row ''/^'' + 2 \<le> strings_Index row ''$/;''))"

text \<open>\<open>keepsSuppressed ts ts'\<close>: a stage that turns the tags \<open>ts\<close> into \<open>ts'\<close> keeps
  their number, and every tag that was suppressed before is suppressed after.\<close>

definition keepsSuppressed :: "CTag list \<Rightarrow> CTag list \<Rightarrow> bool" where
  "keepsSuppressed ts ts' =
     (length ts' = length ts \<and> (\<forall>i<length ts. SkipMe (ts ! i) \<longrightarrow> SkipMe (ts' ! i)))"

subsection \<open>Inputs of the examples\<close>

text \<open>Two instances of the functions that are parameters of the model: a
  \<open>findTemplateMultiline\<close> that finds no text, and a \<open>prototypeAndCodeDontMatch\<close>
  that finds every prototype matching its code.\<close>

definition noMultilineText :: "CTag \<Rightarrow> string" where
  "noMultilineText tag = []"

definition codeAlwaysMatches :: "CTag \<Rightarrow> bool" where
  "codeAlwaysMatches tag = False"

definition exampleTag :: "string \<Rightarrow> string \<Rightarrow> bool \<Rightarrow> CTag" where
  "exampleTag kind proto skip = emptyTag\<lparr>Kind := kind, SkipMe := skip, Prototype := proto\<rparr>"

text \<open>A suppressed tag followed by a tag with the same declaration that is not
  suppressed.\<close>

definition suppressedFirst :: "CTag list" where
  "suppressedFirst =
     [exampleTag ''function'' ''int bar(int);'' True,
      exampleTag ''function'' ''int bar(int);'' False]"

text \<open>One row whose kind is \<open>variable\<close>, and one row of a function that is a member
  of a class.\<close>

definition unknownKindOutput :: string where
  "unknownKindOutput =
     ''counter'' @ [TAB] @ ''sketch.ino'' @ [TAB] @ ''/^int counter;$/;'' @ [DQUOTE]
       @ [TAB] @ ''kind:variable'' @ [TAB] @ ''line:1''"

definition memberFunctionOutput :: string where
  "memberFunctionOutput =
     ''begin'' @ [TAB] @ ''sketch.ino'' @ [TAB] @ ''/^  void begin() {$/;'' @ [DQUOTE]
       @ [TAB] @ ''kind:function'' @ [TAB] @ ''line:4'' @ [TAB] @ ''class:Motor''
       @ [TAB] @ ''signature:()'' @ [TAB] @ ''returntype:void''"

text \<open>The two rows of the end-to-end scenario of the specification (section 8): the
  definition of \<open>foo\<close> at line 3 and its explicit prototype at line 1.\<close>

definition endToEndOutput :: string where
  "endToEndOutput =
     ''foo'' @ [TAB] @ ''sketch.ino'' @ [TAB] @ ''kind:function'' @ [TAB] @ ''line:3''
       @ [TAB] @ ''returntype:void'' @ [TAB] @ ''signature:()''
       @ [TAB] @ ''/^void foo() {$/;'' @ [DQUOTE] @ [NL]
     @ ''foo'' @ [TAB] @ ''sketch.ino'' @ [TAB] @ ''kind:prototype'' @ [TAB] @ ''line:1''
       @ [TAB] @ ''returntype:void'' @ [TAB] @ ''signature:()''
       @ [TAB] @ ''/^void foo();$/;'' @ [DQUOTE] @ [NL]"

definition endToEndResult :: CTagsParser where
  "endToEndResult =
     \<lparr>tags =
        [\<lparr>FunctionName = ''foo'', Kind = ''function'', Line = 3, Code = ''void foo() {'',
           Class = [], Struct = [], Namespace = [], Filename = ''sketch.ino'', Typeref = [],
           SkipMe = True, Signature = ''()'', Prototype = ''void foo();'',
           PrototypeModifiers = []\<rparr>,
         \<lparr>FunctionName = ''foo'', Kind = ''prototype'', Line = 1, Code = ''void foo();'',
           Class = [], Struct = [], Namespace = [], Filename = ''sketch.ino'', Typeref = [],
           SkipMe = True, Signature = ''()'', Prototype = ''void foo();'',
           PrototypeModifiers = []\<rparr>],
      mainFile = None\<rparr>"




text \<open>The row of a function template whose definition opens its body on the line of
  the snippet, and the tag that the decoder makes of it.\<close>

definition templateAddRow :: string where
  "templateAddRow =
     ''add'' @ [TAB] @ ''sketch.ino''
       @ [TAB] @ ''/^template <typename T> T add(T a, T b) {$/;'' @ [DQUOTE]
       @ [TAB] @ ''kind:function'' @ [TAB] @ ''line:1'' @ [TAB] @ ''signature:(T a, T b)''
       @ [TAB] @ ''returntype:template <typename T> T''"

definition templateAddTag :: CTag where
  "templateAddTag =
     \<lparr>FunctionName = ''add'', Kind = ''function'', Line = 1,
      Code = ''template <typename T> T add(T a, T b) {'',
      Class = [], Struct = [], Namespace = [], Filename = ''sketch.ino'', Typeref = [],
      SkipMe = False, Signature = ''(T a, T b)'',
      Prototype = ''template <typename T> T add(T a, T b);'', PrototypeModifiers = []\<rparr>"

text \<open>\<open>isDecimal s\<close>: the string is an optional sign followed by one decimal digit or
  more.\<close>

definition isDecimal :: "string \<Rightarrow> bool" where
  "isDecimal s =
     (let digits = (if s \<noteq> [] \<and> (hd s = CHR ''+'' \<or> hd s = CHR ''-'') then tl s else s)
      in digits \<noteq> [] \<and> list_all isDigit digits)"

text \<open>A row whose \<open>line\<close> field has twenty digits.\<close>

definition overflowLineRow :: string where
  "overflowLineRow =
     ''foo'' @ [TAB] @ ''sketch.ino'' @ [TAB] @ ''kind:function''
       @ [TAB] @ ''line:99999999999999999999''
       @ [TAB] @ ''signature:()'' @ [TAB] @ ''returntype:void''"

text \<open>A row whose \<open>line\<close> field is not a number.\<close>

definition badLineRow :: string where
  "badLineRow =
     ''foo'' @ [TAB] @ ''sketch.ino'' @ [TAB] @ ''kind:function''
       @ [TAB] @ ''line:abc''
       @ [TAB] @ ''signature:()'' @ [TAB] @ ''returntype:void''"

text \<open>\<open>hasField row key\<close>: one of the fields of the row after the name and the file
  begins with \<open>key:\<close>. \<open>absentFieldsDefault row tag\<close>: every field of the tag whose
  key is in no field of the row has its zero value, the declaration is built with an
  empty return type when the row has none, the snippet is empty unless the row has both
  markers, and the tag is not suppressed and has no modifiers.\<close>

definition hasField :: "string \<Rightarrow> string \<Rightarrow> bool" where
  "hasField row key =
     list_ex (\<lambda>part. prefix (key @ '':'') part) (drop 2 (strings_Split row TAB))"

definition absentFieldsDefault :: "string \<Rightarrow> CTag \<Rightarrow> bool" where
  "absentFieldsDefault row tag =
     ((\<not> hasField row ''kind'' \<longrightarrow> Kind tag = [])
      \<and> (\<not> hasField row ''line'' \<longrightarrow> Line tag = 0)
      \<and> (\<not> hasField row ''typeref'' \<longrightarrow> Typeref tag = [])
      \<and> (\<not> hasField row ''signature'' \<longrightarrow> Signature tag = [])
      \<and> (\<not> hasField row ''class'' \<longrightarrow> Class tag = [])
      \<and> (\<not> hasField row ''struct'' \<longrightarrow> Struct tag = [])
      \<and> (\<not> hasField row ''namespace'' \<longrightarrow> Namespace tag = [])
      \<and> (\<not> hasField row ''returntype''
            \<longrightarrow> Prototype tag = '' '' @ FunctionName tag @ Signature tag @ '';'')
      \<and> (\<not> (strings_Contains row ''/^'' \<and> strings_Contains row ''$/;'') \<longrightarrow> Code tag = [])
      \<and> \<not> SkipMe tag \<and> PrototypeModifiers tag = [])"

text \<open>A row of nothing but a name and a file, and the tag that the decoder makes of
  it.\<close>

definition bareRow :: string where
  "bareRow = ''foo'' @ [TAB] @ ''sketch.ino''"

definition bareTag :: CTag where
  "bareTag =
     \<lparr>FunctionName = ''foo'', Kind = [], Line = 0, Code = [], Class = [], Struct = [],
      Namespace = [], Filename = ''sketch.ino'', Typeref = [], SkipMe = False,
      Signature = [], Prototype = '' foo;'', PrototypeModifiers = []\<rparr>"

subsection \<open>The decoded tag, in the words of the specification\<close>

text \<open>Section 4.1 of the specification: the fields after the name and the file are bare
  tokens or \<open>key:value\<close> pairs, the first colon being the delimiter and the value being
  trimmed. \<open>fieldValue key parts\<close> is the trimmed value of the last field with that key,
  \<open>None\<close> when no field has the key; \<open>fieldText\<close> is that value for a row, the empty
  string when the row has no such field.\<close>

definition fieldsOf :: "string \<Rightarrow> string list" where
  "fieldsOf row = drop 2 (strings_Split row TAB)"

definition fieldValue :: "string \<Rightarrow> string list \<Rightarrow> string option" where
  "fieldValue key parts =
     (case filter (prefix (key @ '':'')) parts of
        [] \<Rightarrow> None
      | p # ps \<Rightarrow> Some (strings_TrimSpace (drop (length key + 1) (last (p # ps)))))"

definition fieldText :: "string \<Rightarrow> string \<Rightarrow> string" where
  "fieldText row key = (case fieldValue key (fieldsOf row) of None \<Rightarrow> [] | Some v \<Rightarrow> v)"

text \<open>The snippet: the text between the first \<open>/^\<close> and the first \<open>$/;\<close> of the
  row when the row has both, the empty string otherwise.\<close>

definition snippetOf :: "string \<Rightarrow> string" where
  "snippetOf row =
     (if strings_Contains row ''/^'' \<and> strings_Contains row ''$/;''
      then take (nat (strings_Index row ''$/;'' - (strings_Index row ''/^'' + 2)))
             (drop (nat (strings_Index row ''/^'' + 2)) row)
      else [])"

text \<open>The tag of a row: field 0 is the name, field 1 the file with doubled backslashes
  undone, every recognised key has the value of its last field, the line number is what
  \<open>strconv.Atoi\<close> returns for the value of the key \<open>line\<close>, zero without such a field,
  and the declaration is seeded as the return type, a space, the name, the signature and
  a semicolon.\<close>

definition decodedTag :: "string \<Rightarrow> CTag" where
  "decodedTag row =
     \<lparr>FunctionName = strings_Split row TAB ! 0,
      Kind = fieldText row ''kind'',
      Line = (case fieldValue ''line'' (fieldsOf row) of None \<Rightarrow> 0 | Some v \<Rightarrow> fst (Atoi v)),
      Code = snippetOf row,
      Class = fieldText row ''class'',
      Struct = fieldText row ''struct'',
      Namespace = fieldText row ''namespace'',
      Filename = strings_ReplaceAll (strings_Split row TAB ! 1) [BACKSLASH, BACKSLASH] [BACKSLASH],
      Typeref = fieldText row ''typeref'',
      SkipMe = False,
      Signature = fieldText row ''signature'',
      Prototype = fieldText row ''returntype'' @ '' '' @ strings_Split row TAB ! 0
                    @ fieldText row ''signature'' @ '';'',
      PrototypeModifiers = []\<rparr>"

subsection \<open>More inputs of the examples\<close>

text \<open>A row whose fields come in an unusual order, with a field without a colon and a
  field of an unknown key among them, and the tag that the decoder makes of it.\<close>

definition mixedRow :: string where
  "mixedRow =
     ''loop'' @ [TAB] @ ''C:'' @ [BACKSLASH, BACKSLASH] @ ''sketch.ino''
       @ [TAB] @ ''signature: (int n) '' @ [TAB] @ ''f'' @ [TAB] @ ''language:C++''
       @ [TAB] @ ''line:12'' @ [TAB] @ ''kind:function'' @ [TAB] @ ''returntype:void''"

definition mixedTag :: CTag where
  "mixedTag =
     \<lparr>FunctionName = ''loop'', Kind = ''function'', Line = 12, Code = [], Class = [],
      Struct = [], Namespace = [], Filename = ''C:'' @ [BACKSLASH] @ ''sketch.ino'',
      Typeref = [], SkipMe = False, Signature = ''(int n)'',
      Prototype = ''void loop(int n);'', PrototypeModifiers = []\<rparr>"

text \<open>The row \<open>badLineRow\<close> with a number in its \<open>line\<close> field.\<close>

definition goodLineRow :: string where
  "goodLineRow =
     ''foo'' @ [TAB] @ ''sketch.ino'' @ [TAB] @ ''kind:function''
       @ [TAB] @ ''line:7''
       @ [TAB] @ ''signature:()'' @ [TAB] @ ''returntype:void''"


section \<open>Facts about the library functions\<close>

lemma strings_Index_ge: "strings_Index s sub \<ge> -1"
  by (induction s) (auto simp: Let_def)

lemma strings_Index_zero_iff: "strings_Index s sub = 0 \<longleftrightarrow> prefix sub s"
proof (cases s)
  case Nil then show ?thesis by auto
next
  case (Cons c s')
  have "strings_Index s' sub \<ge> -1" by (rule strings_Index_ge)
  then show ?thesis using Cons by (auto simp: Let_def)
qed

lemma strings_Index_decomp:
  "0 \<le> strings_Index s sub \<Longrightarrow>
     s = take (nat (strings_Index s sub)) s @ sub @ drop (nat (strings_Index s sub) + length sub) s"
proof (induction s)
  case Nil then show ?case by (auto split: if_splits)
next
  case (Cons c s)
  show ?case
  proof (cases "prefix sub (c # s)")
    case True
    then have i0: "strings_Index (c # s) sub = 0" by simp
    from True obtain r where "c # s = sub @ r" by (auto simp: prefix_def)
    then show ?thesis unfolding i0 by simp
  next
    case False
    with Cons.prems have r: "0 \<le> strings_Index s sub" by (auto simp: Let_def split: if_splits)
    have idx: "strings_Index (c # s) sub = strings_Index s sub + 1" using False r by (simp add: Let_def)
    have n: "nat (strings_Index s sub + 1) = Suc (nat (strings_Index s sub))" using r by simp
    have "c # s = c # (take (nat (strings_Index s sub)) s @ sub
                         @ drop (nat (strings_Index s sub) + length sub) s)"
      using Cons.IH[OF r] by simp
    then show ?thesis unfolding idx n by simp
  qed
qed

lemma strings_Index_bound:
  "0 \<le> strings_Index s sub \<Longrightarrow> strings_Index s sub + int (length sub) \<le> int (length s)"
proof (induction s)
  case Nil then show ?case by (auto split: if_splits)
next
  case (Cons c s)
  show ?case
  proof (cases "prefix sub (c # s)")
    case True
    then show ?thesis using prefix_length_le[OF True] by simp
  next
    case False
    with Cons.prems have r: "0 \<le> strings_Index s sub" by (auto simp: Let_def split: if_splits)
    show ?thesis using Cons.IH[OF r] False r by (simp add: Let_def)
  qed
qed

lemma strings_Index_char:
  "strings_Index s [c] = (if c \<in> set s then int (length (takeWhile (\<lambda>x. x \<noteq> c) s)) else -1)"
  by (induction s) (auto simp: Let_def)

lemma strings_Contains_char: "strings_Contains s [c] \<longleftrightarrow> c \<in> set s"
  by (simp add: strings_Contains_def strings_Index_char)

lemma take_Index_char:
  "c \<in> set s \<Longrightarrow> take (nat (strings_Index s [c])) s = takeWhile (\<lambda>x. x \<noteq> c) s"
  using takeWhile_eq_take[of "\<lambda>x. x \<noteq> c" s] by (simp add: strings_Index_char)

lemma strings_LastIndex_char:
  "strings_LastIndex s [c] + 1 =
     (if c \<in> set s then int (length s) - int (length (takeWhile (\<lambda>x. x \<noteq> c) (rev s))) else 0)"
proof (cases "c \<in> set s")
  case True
  then have "strings_Index (rev s) (rev [c]) = int (length (takeWhile (\<lambda>x. x \<noteq> c) (rev s)))"
    by (simp add: strings_Index_char)
  then show ?thesis using True unfolding strings_LastIndex_def Let_def by simp
next
  case False
  then have "strings_Index (rev s) (rev [c]) = -1"
    by (simp add: strings_Index_char)
  then show ?thesis using False unfolding strings_LastIndex_def Let_def by simp
qed

lemma length_strings_Split: "length (strings_Split s d) = Suc (length (filter (\<lambda>c. c = d) s))"
  by (induction s) (auto split: list.splits)

lemma strings_Split_two: "2 \<le> length (strings_Split s d) \<longleftrightarrow> d \<in> set s"
  by (auto simp: length_strings_Split filter_empty_conv Suc_le_eq)

section \<open>Facts about the filter stages\<close>

lemma suppressesOnly_trans: "suppressesOnly a b \<Longrightarrow> suppressesOnly b c \<Longrightarrow> suppressesOnly a c"
  by (simp add: suppressesOnly_def)

lemma suppressesOnly_fields:
  assumes "suppressesOnly t t'"
  shows "decodedFields t' = decodedFields t" and "Prototype t' = Prototype t"
    and "PrototypeModifiers t' = PrototypeModifiers t" and "SkipMe t \<Longrightarrow> SkipMe t'"
proof -
  from assms have e: "t'\<lparr>SkipMe := True\<rparr> = t\<lparr>SkipMe := True\<rparr>"
    by (simp add: suppressesOnly_def)
  have "decodedFields (t'\<lparr>SkipMe := True\<rparr>) = decodedFields (t\<lparr>SkipMe := True\<rparr>)"
    by (simp only: e)
  then show "decodedFields t' = decodedFields t" by (simp add: decodedFields_def)
  have "Prototype (t'\<lparr>SkipMe := True\<rparr>) = Prototype (t\<lparr>SkipMe := True\<rparr>)"
    by (simp only: e)
  then show "Prototype t' = Prototype t" by simp
  have "PrototypeModifiers (t'\<lparr>SkipMe := True\<rparr>) = PrototypeModifiers (t\<lparr>SkipMe := True\<rparr>)"
    by (simp only: e)
  then show "PrototypeModifiers t' = PrototypeModifiers t" by simp
  show "SkipMe t \<Longrightarrow> SkipMe t'" using assms by (simp add: suppressesOnly_def)
qed

lemma list_all2_suppressesOnly_trans:
  "list_all2 suppressesOnly xs ys \<Longrightarrow> list_all2 suppressesOnly ys zs
     \<Longrightarrow> list_all2 suppressesOnly xs zs"
  by (rule list_all2_trans[of suppressesOnly suppressesOnly suppressesOnly])
     (auto intro: suppressesOnly_trans)

lemma skipTagsWhere_suppressesOnly: "list_all2 suppressesOnly ts (skipTagsWhere f ts)"
  unfolding skipTagsWhere_def list_all2_map2
  by (rule list_all2_refl) (simp add: suppressesOnly_def)

lemma skipTagsWhere_nth:
  "i < length ts \<Longrightarrow>
     skipTagsWhere f ts ! i = (ts ! i)\<lparr>SkipMe := SkipMe (ts ! i) \<or> f (ts ! i)\<rparr>"
  by (simp add: skipTagsWhere_def)

lemma length_skipTagsWhere: "length (skipTagsWhere f ts) = length ts"
  by (simp add: skipTagsWhere_def)

lemma collectDefined_iff:
  "collectDefined m ts k \<longleftrightarrow> m k \<or> (\<exists>t \<in> set ts. Kind t = KIND_PROTOTYPE \<and> Prototype t = k)"
  by (induction ts arbitrary: m) auto

lemma removeDefinedProtypes_suppressesOnly:
  "list_all2 suppressesOnly ts (removeDefinedProtypes ts)"
  unfolding removeDefinedProtypes_def Let_def list_all2_map2
  by (rule list_all2_refl) (simp add: suppressesOnly_def)

lemma SkipMe_if_update:
  "(if d then t\<lparr>SkipMe := True\<rparr> else t) = t\<lparr>SkipMe := SkipMe t \<or> d\<rparr>"
  by (cases d) simp_all

lemma removeDefinedProtypes_nth:
  "i < length ts \<Longrightarrow>
     removeDefinedProtypes ts ! i =
       (ts ! i)\<lparr>SkipMe := SkipMe (ts ! i)
          \<or> (\<exists>t \<in> set ts. Kind t = KIND_PROTOTYPE \<and> Prototype t = Prototype (ts ! i))\<rparr>"
  unfolding SkipMe_if_update[symmetric]
  by (simp add: removeDefinedProtypes_def collectDefined_iff)

lemma length_skipDuplicates_loop: "length (skipDuplicates_loop m ts) = length ts"
  by (induction ts arbitrary: m) auto

lemma skipDuplicates_loop_nth:
  "i < length ts \<Longrightarrow>
     skipDuplicates_loop m ts ! i =
       (ts ! i)\<lparr>SkipMe := SkipMe (ts ! i) \<or> m (Prototype (ts ! i))
          \<or> (\<exists>j<i. \<not> SkipMe (ts ! j) \<and> Prototype (ts ! j) = Prototype (ts ! i))\<rparr>"
proof (induction ts arbitrary: m i)
  case Nil then show ?case by simp
next
  case (Cons t ts)
  show ?case
  proof (cases i)
    case 0 then show ?thesis by simp
  next
    case (Suc k)
    with Cons.prems have k: "k < length ts" by simp
    have ex: "(\<exists>j<Suc k. P j) \<longleftrightarrow> P 0 \<or> (\<exists>j<k. P (Suc j))" for P
      by (metis less_Suc_eq_0_disj)
    show ?thesis using Cons.IH[OF k] Suc by (auto simp: ex)
  qed
qed

lemma length_skipDuplicates: "length (skipDuplicates ts) = length ts"
  by (simp add: skipDuplicates_def length_skipDuplicates_loop)

lemma skipDuplicates_nth:
  "i < length ts \<Longrightarrow>
     skipDuplicates ts ! i =
       (ts ! i)\<lparr>SkipMe := SkipMe (ts ! i)
          \<or> (\<exists>j<i. \<not> SkipMe (ts ! j) \<and> Prototype (ts ! j) = Prototype (ts ! i))\<rparr>"
  by (simp add: skipDuplicates_def skipDuplicates_loop_nth)

lemma skipDuplicates_suppressesOnly: "list_all2 suppressesOnly ts (skipDuplicates ts)"
  by (simp add: list_all2_conv_all_nth length_skipDuplicates skipDuplicates_nth suppressesOnly_def)

section \<open>Facts about the synthesizer\<close>

lemma slice_prefix:
  "0 \<le> n \<Longrightarrow> n \<le> int (length s) \<Longrightarrow> slice s 0 n = Inr (take (nat n) s)"
  by (simp add: slice_def)

lemma slice_suffix:
  "0 \<le> n \<Longrightarrow> n \<le> int (length s) \<Longrightarrow> slice s n (int (length s)) = Inr (drop (nat n) s)"
  by (simp add: slice_def)

lemma take_LastIndex_char:
  "take (nat (strings_LastIndex s [c] + 1)) s = rev (dropWhile (\<lambda>x. x \<noteq> c) (rev s))"
proof (cases "c \<in> set s")
  case True
  let ?k = "length (takeWhile (\<lambda>x. x \<noteq> c) (rev s))"
  have k: "?k \<le> length s" using length_takeWhile_le[of "\<lambda>x. x \<noteq> c" "rev s"] by simp
  have "nat (strings_LastIndex s [c] + 1) = length s - ?k"
    using True k by (simp add: strings_LastIndex_char)
  moreover have "rev (dropWhile (\<lambda>x. x \<noteq> c) (rev s)) = take (length s - ?k) s"
    by (simp add: dropWhile_eq_drop rev_drop)
  ultimately show ?thesis by simp
next
  case False
  then have "dropWhile (\<lambda>x. x \<noteq> c) (rev s) = []" by auto
  then show ?thesis using False by (simp add: strings_LastIndex_char)
qed

lemma LastIndex_char_bounds:
  "0 \<le> strings_LastIndex s [c] + 1 \<and> strings_LastIndex s [c] + 1 \<le> int (length s)"
  using length_takeWhile_le[of "\<lambda>x. x \<noteq> c" "rev s"] by (simp add: strings_LastIndex_char)

lemma addPrototype_template:
  assumes "prefix TEMPLATE (Prototype t)" and "prefix TEMPLATE (Code t)"
  shows "addPrototype fm t = Inr (t\<lparr>Prototype := rebuildFromSnippet (Code t)\<rparr>)"
proof (cases "CHR ''{'' \<in> set (Code t)")
  case True
  then have c: "strings_Contains (Code t) ''{''" by (simp add: strings_Contains_char)
  then have b: "0 \<le> strings_Index (Code t) ''{''" by (simp add: strings_Contains_def)
  have "strings_Index (Code t) ''{'' \<le> int (length (Code t))"
    using strings_Index_bound[OF b] by simp
  then have "slice (Code t) 0 (strings_Index (Code t) ''{'')
               = Inr (takeWhile (\<lambda>c. c \<noteq> CHR ''{'') (Code t))"
    using b True by (simp add: slice_prefix take_Index_char)
  then show ?thesis using assms c True
    by (simp add: addPrototype_def strings_Index_zero_iff rebuildFromSnippet_def)
next
  case False
  then have c: "\<not> strings_Contains (Code t) ''{''" by (simp add: strings_Contains_char)
  have "slice (Code t) 0 (strings_LastIndex (Code t) '')'' + 1)
          = Inr (rev (dropWhile (\<lambda>c. c \<noteq> CHR '')'') (rev (Code t))))"
    using LastIndex_char_bounds[of "Code t" "CHR '')''"]
    by (simp add: slice_prefix take_LastIndex_char)
  then show ?thesis using assms c False
    by (simp add: addPrototype_def strings_Index_zero_iff rebuildFromSnippet_def)
qed

lemma addPrototype_nontemplate:
  assumes "\<not> prefix TEMPLATE (Prototype t)"
  shows "addPrototype fm t =
           Inr (t\<lparr>PrototypeModifiers :=
                   strings_TrimSpace (if strings_Contains (Code t) ''static '' then '' static'' else [])\<rparr>)"
  using assms by (simp add: addPrototype_def strings_Index_zero_iff Let_def)

lemma addPrototype_multiline:
  assumes "prefix TEMPLATE (Prototype t)" and "\<not> prefix TEMPLATE (Code t)"
  shows "addPrototype fm t = Inr (t\<lparr>Prototype := fm t @ '';''\<rparr>)"
  using assms by (simp add: addPrototype_def strings_Index_zero_iff Let_def)

lemma addPrototype_Inr:
  "\<exists>t'. addPrototype fm t = Inr t' \<and> decodedFields t' = decodedFields t
        \<and> SkipMe t' = SkipMe t
        \<and> (\<not> prefix TEMPLATE (Prototype t) \<longrightarrow> Prototype t' = Prototype t)"
proof (cases "prefix TEMPLATE (Prototype t)")
  case False
  then show ?thesis by (simp add: addPrototype_nontemplate decodedFields_def)
next
  case True
  show ?thesis
  proof (cases "prefix TEMPLATE (Code t)")
    case True
    with \<open>prefix TEMPLATE (Prototype t)\<close> show ?thesis
      by (simp add: addPrototype_template decodedFields_def)
  next
    case False
    with \<open>prefix TEMPLATE (Prototype t)\<close> show ?thesis
      by (simp add: addPrototype_multiline decodedFields_def)
  qed
qed

text \<open>What the loop \<open>addPrototypes\<close> does to one tag.\<close>

lemma addPrototypes_Inr:
  "\<exists>ts'. addPrototypes fm ts = Inr ts'
      \<and> list_all2 (\<lambda>t t'. if SkipMe t then t' = t else addPrototype fm t = Inr t') ts ts'"
proof (induction ts)
  case Nil then show ?case by simp
next
  case (Cons t ts)
  from Cons.IH obtain ts' where ts': "addPrototypes fm ts = Inr ts'"
    "list_all2 (\<lambda>t t'. if SkipMe t then t' = t else addPrototype fm t = Inr t') ts ts'" by blast
  obtain t' where t': "addPrototype fm t = Inr t'" using addPrototype_Inr by blast
  show ?case using ts' t' by (cases "SkipMe t") simp_all
qed

lemma addPrototypes_frame:
  assumes "addPrototypes fm ts = Inr ts'"
  shows "list_all2 (\<lambda>t t'. decodedFields t' = decodedFields t \<and> SkipMe t' = SkipMe t
            \<and> (\<not> prefix TEMPLATE (Prototype t) \<longrightarrow> Prototype t' = Prototype t)) ts ts'"
proof -
  from addPrototypes_Inr[of fm ts] assms
  have "list_all2 (\<lambda>t t'. if SkipMe t then t' = t else addPrototype fm t = Inr t') ts ts'"
    by auto
  then show ?thesis
  proof (rule list_all2_mono)
    fix t t' assume h: "if SkipMe t then t' = t else addPrototype fm t = Inr t'"
    show "decodedFields t' = decodedFields t \<and> SkipMe t' = SkipMe t
            \<and> (\<not> prefix TEMPLATE (Prototype t) \<longrightarrow> Prototype t' = Prototype t)"
      using h addPrototype_Inr[of fm t] by (cases "SkipMe t") auto
  qed
qed

section \<open>Facts about the decoder\<close>

lemma parseField_slices:
  assumes "strings_Contains part '':''"
  shows "slice part 0 (strings_Index part '':'')
           = Inr (take (nat (strings_Index part '':'')) part)"
    and "slice part (strings_Index part '':'' + 1) (int (length part))
           = Inr (drop (nat (strings_Index part '':'' + 1)) part)"
proof -
  from assms have b: "0 \<le> strings_Index part '':''" by (simp add: strings_Contains_def)
  have u: "strings_Index part '':'' + 1 \<le> int (length part)"
    using strings_Index_bound[OF b] by simp
  show "slice part 0 (strings_Index part '':'')
           = Inr (take (nat (strings_Index part '':'')) part)"
    using b u by (simp add: slice_prefix)
  show "slice part (strings_Index part '':'' + 1) (int (length part))
           = Inr (drop (nat (strings_Index part '':'' + 1)) part)"
    using b u by (simp add: slice_suffix)
qed

text \<open>The loop body never panics, and it leaves \<open>SkipMe\<close>, the name, the file and the
  snippet alone.\<close>

lemma parseField_Inr:
  "\<exists>tag' rt'. parseField (tag, rt) part = Inr (tag', rt') \<and> SkipMe tag' = SkipMe tag
      \<and> FunctionName tag' = FunctionName tag \<and> Filename tag' = Filename tag
      \<and> Code tag' = Code tag"
proof (cases "strings_Contains part '':''")
  case True
  show ?thesis using True by (simp add: parseField_slices[OF True] Let_def)
next
  case False
  then show ?thesis by simp
qed

lemma parseFields_Inr:
  "\<exists>tag' rt'. parseFields (tag, rt) parts = Inr (tag', rt') \<and> SkipMe tag' = SkipMe tag
      \<and> FunctionName tag' = FunctionName tag \<and> Filename tag' = Filename tag
      \<and> Code tag' = Code tag"
proof (induction parts arbitrary: tag rt)
  case Nil then show ?case by simp
next
  case (Cons part parts)
  obtain t1 r1 where s1: "parseField (tag, rt) part = Inr (t1, r1)" "SkipMe t1 = SkipMe tag"
    "FunctionName t1 = FunctionName tag" "Filename t1 = Filename tag" "Code t1 = Code tag"
    using parseField_Inr[of tag rt part] by blast
  from Cons.IH[of t1 r1] obtain t2 r2 where s2: "parseFields (t1, r1) parts = Inr (t2, r2)"
    "SkipMe t2 = SkipMe t1" "FunctionName t2 = FunctionName t1" "Filename t2 = Filename t1"
    "Code t2 = Code t1" by blast
  show ?case using s1 s2 by simp
qed

lemma parseTag_Inr_iff: "(\<exists>tag. parseTag row = Inr tag) \<longleftrightarrow> rowDecodable row"
proof -
  let ?parts = "strings_Split row TAB"
  have len1: "0 < length ?parts" by (simp add: length_strings_Split)
  show ?thesis
  proof (cases "TAB \<in> set row")
    case False
    then have "\<not> 1 < length ?parts" using strings_Split_two[of row TAB] by simp
    then have "parseTag row = Inl IndexOutOfRange"
      using len1 by (simp add: parseTag_def index_def Let_def)
    then show ?thesis using False by (simp add: rowDecodable_def)
  next
    case True
    then have len2: "1 < length ?parts" using strings_Split_two[of row TAB] by simp
    let ?tag0 = "emptyTag\<lparr>FunctionName := ?parts ! 0,
                   Filename := strings_ReplaceAll (?parts ! 1) [BACKSLASH, BACKSLASH] [BACKSLASH]\<rparr>"
    obtain t1 r1 where f: "parseFields (?tag0, []) (drop 2 ?parts) = Inr (t1, r1)"
      using parseFields_Inr[of ?tag0 "[]" "drop 2 ?parts"] by blast
    show ?thesis
    proof (cases "strings_Contains row ''/^'' \<and> strings_Contains row ''$/;''")
      case False
      then show ?thesis using True len1 len2 f
        by (auto simp: parseTag_def index_def Let_def rowDecodable_def)
    next
      case both: True
      then have b1: "0 \<le> strings_Index row ''/^''" and b2: "0 \<le> strings_Index row ''$/;''"
        by (simp_all add: strings_Contains_def)
      have u2: "strings_Index row ''$/;'' \<le> int (length row)"
        using strings_Index_bound[OF b2] by simp
      have "(\<exists>code. slice row (strings_Index row ''/^'' + 2) (strings_Index row ''$/;'') = Inr code)
              \<longleftrightarrow> strings_Index row ''/^'' + 2 \<le> strings_Index row ''$/;''"
        using b1 u2 by (simp add: slice_def)
      then show ?thesis using True both len1 len2 f
        by (auto simp: parseTag_def index_def Let_def rowDecodable_def split: sum.splits)
    qed
  qed
qed

section \<open>Facts about the pipeline\<close>


text \<open>The decoding loop appends one tag per row, in the order of the rows.\<close>

lemma parseRows_result:
  "parseRows acc rows = Inr ts \<Longrightarrow>
     \<exists>new. ts = acc @ new \<and> list_all2 (\<lambda>row tag. parseTag row = Inr tag) rows new"
proof (induction rows arbitrary: acc)
  case Nil then show ?case by simp
next
  case (Cons row rows)
  from Cons.prems obtain tag where t: "parseTag row = Inr tag"
    and r: "parseRows (acc @ [tag]) rows = Inr ts"
    by (auto split: sum.splits)
  from Cons.IH[OF r] obtain new where "ts = (acc @ [tag]) @ new"
    "list_all2 (\<lambda>row tag. parseTag row = Inr tag) rows new" by blast
  then have "ts = acc @ (tag # new) \<and> list_all2 (\<lambda>row tag. parseTag row = Inr tag) (row # rows) (tag # new)"
    using t by simp
  then show ?case by blast
qed

lemma parseRows_Inr_iff:
  "(\<exists>ts. parseRows acc rows = Inr ts) \<longleftrightarrow> (\<forall>row \<in> set rows. rowDecodable row)"
proof (induction rows arbitrary: acc)
  case Nil then show ?case by simp
next
  case (Cons row rows)
  show ?case
  proof (cases "parseTag row")
    case (Inl e)
    then have "\<not> rowDecodable row" using parseTag_Inr_iff[of row] by simp
    then show ?thesis using Inl by simp
  next
    case (Inr tag)
    then have "rowDecodable row" using parseTag_Inr_iff[of row] by blast
    then show ?thesis using Inr Cons.IH[of "acc @ [tag]"] by simp
  qed
qed

text \<open>The shape of a successful run of \<open>Parse\<close>.\<close>

lemma Parse_Inr_iff:
  "Parse fm dm p buf mf = Inr p' \<longleftrightarrow>
     (\<exists>ts0 ts3. parseRows (tags p) (removeEmpty (strings_Split buf NL)) = Inr ts0
        \<and> addPrototypes fm (skipTagsWhere tagIsUnhandled (skipTagsWhere tagIsUnknown ts0)) = Inr ts3
        \<and> p' = p\<lparr>tags := skipTagsWhere dm (skipDuplicates (removeDefinedProtypes ts3)),
                   mainFile := mf\<rparr>)"
  by (auto simp: Parse_def Let_def split: sum.splits)

lemma Parse_succeeds_iff:
  "(\<exists>p'. Parse fm dm p buf mf = Inr p')
     \<longleftrightarrow> (\<forall>row \<in> set (removeEmpty (strings_Split buf NL)). rowDecodable row)"
proof -
  have "(\<exists>p'. Parse fm dm p buf mf = Inr p')
          \<longleftrightarrow> (\<exists>ts0. parseRows (tags p) (removeEmpty (strings_Split buf NL)) = Inr ts0)"
    unfolding Parse_Inr_iff using addPrototypes_Inr[of fm] by blast
  then show ?thesis by (simp add: parseRows_Inr_iff)
qed

text \<open>From the scope filter on, every stage keeps the decoded fields of each tag and
  never clears \<open>SkipMe\<close>; from the shadow resolver on, the declaration is kept too.\<close>

lemma suppressesOnly_later:
  "suppressesOnly t t' \<Longrightarrow> decodedFields t' = decodedFields t \<and> (SkipMe t \<longrightarrow> SkipMe t')"
  using suppressesOnly_fields[of t t'] by blast

lemma Parse_stages:
  assumes "Parse fm dm p buf mf = Inr p'"
  shows "\<exists>ts0 ts3.
           parseRows (tags p) (removeEmpty (strings_Split buf NL)) = Inr ts0
         \<and> addPrototypes fm (skipTagsWhere tagIsUnhandled (skipTagsWhere tagIsUnknown ts0)) = Inr ts3
         \<and> tags p' = skipTagsWhere dm (skipDuplicates (removeDefinedProtypes ts3))
         \<and> mainFile p' = mf
         \<and> list_all2 suppressesOnly ts3 (tags p')
         \<and> list_all2 suppressesOnly (removeDefinedProtypes ts3) (tags p')
         \<and> list_all2 (\<lambda>t t'. decodedFields t' = decodedFields t \<and> (SkipMe t \<longrightarrow> SkipMe t'))
              (skipTagsWhere tagIsUnhandled (skipTagsWhere tagIsUnknown ts0)) (tags p')
         \<and> list_all2 (\<lambda>t t'. decodedFields t' = decodedFields t \<and> (SkipMe t \<longrightarrow> SkipMe t'))
              (skipTagsWhere tagIsUnknown ts0) (tags p')
         \<and> list_all2 (\<lambda>t t'. decodedFields t' = decodedFields t \<and> (SkipMe t \<longrightarrow> SkipMe t'))
              ts0 (tags p')"
proof -
  let ?R = "\<lambda>t t'. decodedFields t' = decodedFields t \<and> (SkipMe t \<longrightarrow> SkipMe t')"
  from assms obtain ts0 ts3 where
    r: "parseRows (tags p) (removeEmpty (strings_Split buf NL)) = Inr ts0"
    and a: "addPrototypes fm (skipTagsWhere tagIsUnhandled (skipTagsWhere tagIsUnknown ts0)) = Inr ts3"
    and p': "p' = p\<lparr>tags := skipTagsWhere dm (skipDuplicates (removeDefinedProtypes ts3)),
                     mainFile := mf\<rparr>"
    unfolding Parse_Inr_iff by blast
  let ?ts1 = "skipTagsWhere tagIsUnknown ts0"
  let ?ts2 = "skipTagsWhere tagIsUnhandled ?ts1"
  let ?ts4 = "removeDefinedProtypes ts3"
  let ?ts5 = "skipDuplicates ?ts4"
  let ?ts6 = "skipTagsWhere dm ?ts5"
  have t: "tags p' = ?ts6" and m: "mainFile p' = mf" using p' by simp_all
  have s46: "list_all2 suppressesOnly ?ts4 ?ts6"
    by (rule list_all2_suppressesOnly_trans[OF skipDuplicates_suppressesOnly
          skipTagsWhere_suppressesOnly])
  have s36: "list_all2 suppressesOnly ts3 ?ts6"
    by (rule list_all2_suppressesOnly_trans[OF removeDefinedProtypes_suppressesOnly s46])
  have R36: "list_all2 ?R ts3 ?ts6"
    by (rule list_all2_mono[OF s36]) (rule suppressesOnly_later)
  have R23: "list_all2 ?R ?ts2 ts3"
    by (rule list_all2_mono[OF addPrototypes_frame[OF a]]) simp
  have tr: "list_all2 ?R xs ys \<Longrightarrow> list_all2 ?R ys zs \<Longrightarrow> list_all2 ?R xs zs" for xs ys zs
    by (rule list_all2_trans[of ?R ?R ?R]) auto
  have R26: "list_all2 ?R ?ts2 ?ts6" by (rule tr[OF R23 R36])
  have R12: "list_all2 ?R ?ts1 ?ts2"
    by (rule list_all2_mono[OF skipTagsWhere_suppressesOnly]) (rule suppressesOnly_later)
  have R16: "list_all2 ?R ?ts1 ?ts6" by (rule tr[OF R12 R26])
  have R01: "list_all2 ?R ts0 ?ts1"
    by (rule list_all2_mono[OF skipTagsWhere_suppressesOnly]) (rule suppressesOnly_later)
  have R06: "list_all2 ?R ts0 ?ts6" by (rule tr[OF R01 R16])
  show ?thesis using r a t m s36 s46 R26 R16 R06 by auto
qed

lemma keepsSuppressed_suppressesOnly:
  "list_all2 suppressesOnly ts ts' \<Longrightarrow> keepsSuppressed ts ts'"
  by (auto simp: keepsSuppressed_def list_all2_conv_all_nth suppressesOnly_def)


lemma decodedFields_eqD:
  assumes "decodedFields t' = decodedFields t"
  shows "FunctionName t' = FunctionName t" "Filename t' = Filename t" "Kind t' = Kind t"
    "Line t' = Line t" "Typeref t' = Typeref t" "Signature t' = Signature t"
    "Class t' = Class t" "Struct t' = Struct t" "Namespace t' = Namespace t" "Code t' = Code t"
  using assms by (simp_all add: decodedFields_def)

text \<open>The run of the end-to-end scenario.\<close>

lemma endToEnd_rows:
  "removeEmpty (strings_Split endToEndOutput NL) =
     [''foo'' @ [TAB] @ ''sketch.ino'' @ [TAB] @ ''kind:function'' @ [TAB] @ ''line:3''
        @ [TAB] @ ''returntype:void'' @ [TAB] @ ''signature:()''
        @ [TAB] @ ''/^void foo() {$/;'' @ [DQUOTE],
      ''foo'' @ [TAB] @ ''sketch.ino'' @ [TAB] @ ''kind:prototype'' @ [TAB] @ ''line:1''
        @ [TAB] @ ''returntype:void'' @ [TAB] @ ''signature:()''
        @ [TAB] @ ''/^void foo();$/;'' @ [DQUOTE]]"
  by code_simp

lemma endToEnd_run:
  "Parse noMultilineText codeAlwaysMatches newParser endToEndOutput None = Inr endToEndResult"
  by code_simp


lemma addPrototypes_nth:
  assumes "addPrototypes fm ts = Inr ts'" and "i < length ts" and "\<not> SkipMe (ts ! i)"
  shows "length ts' = length ts \<and> addPrototype fm (ts ! i) = Inr (ts' ! i)"
proof -
  from addPrototypes_Inr[of fm ts] assms(1)
  have l: "list_all2 (\<lambda>t t'. if SkipMe t then t' = t else addPrototype fm t = Inr t') ts ts'"
    by auto
  from list_all2_nthD[OF l assms(2)] assms(3) list_all2_lengthD[OF l] show ?thesis by simp
qed

lemma templateAdd_decoded: "parseTag templateAddRow = Inr templateAddTag"
  by code_simp

section \<open>Facts about the line field and strconv.Atoi\<close>

lemma isDigit_value: "isDigit c \<Longrightarrow> 0 \<le> (of_char c :: int) - 48 \<and> (of_char c :: int) - 48 \<le> 9"
  by (simp add: isDigit_def)

text \<open>Up to nineteen digits never overflow the accumulator, so that a byte that is not
  a digit among them is reached and reported.\<close>

lemma ParseUint_loop_syntax:
  assumes "0 \<le> n" and "n < 10 ^ k" and "k + length s \<le> 19" and "\<not> list_all isDigit s"
  shows "ParseUint_loop n s = (0, Some ErrSyntax)"
  using assms
proof (induction s arbitrary: n k)
  case Nil then show ?case by simp
next
  case (Cons c s)
  show ?case
  proof (cases "isDigit c")
    case False then show ?thesis by simp
  next
    case True
    from Cons.prems(3) have k: "k \<le> 18" by simp
    have "(10::int) ^ k \<le> 10 ^ 18" using k by (intro power_increasing) simp_all
    with Cons.prems(2) have n18: "n < 1000000000000000000" by simp
    let ?n1 = "n * 10 + (of_char c - 48)"
    from isDigit_value[OF True] Cons.prems(1) have n1: "0 \<le> ?n1" by simp
    have "n + 1 \<le> 10 ^ k" using Cons.prems(2) by simp
    then have "(n + 1) * 10 \<le> 10 ^ k * 10" by (rule mult_right_mono) simp
    with isDigit_value[OF True] have n1k: "?n1 < 10 ^ Suc k" by simp
    have "\<not> list_all isDigit s" using Cons.prems(4) True by simp
    from Cons.IH[OF n1 n1k _ this] Cons.prems(3)
    have "ParseUint_loop ?n1 s = (0, Some ErrSyntax)" by simp
    moreover have "\<not> n \<ge> maxUint64 div 10 + 1" using n18 by (simp add: maxUint64_def)
    moreover have "\<not> ?n1 > maxUint64" using n18 isDigit_value[OF True] by (simp add: maxUint64_def)
    ultimately show ?thesis using True by (simp add: Let_def)
  qed
qed

lemma Atoi_syntax_error:
  assumes "\<not> isDecimal s" and "length s \<le> 19"
  shows "Atoi s = (0, Some ErrSyntax)"
proof (cases "s = []")
  case True then show ?thesis by (simp add: Atoi_def ParseInt_def)
next
  case False
  define s' where "s' = (if hd s = CHR ''+'' \<or> hd s = CHR ''-'' then tl s else s)"
  have d: "s' = [] \<or> \<not> list_all isDigit s'"
    using assms(1) False by (auto simp: isDecimal_def s'_def Let_def)
  have l: "length s' \<le> 19" using assms(2) by (auto simp: s'_def)
  have "ParseUint s' = (0, Some ErrSyntax)"
  proof (cases "s' = []")
    case True then show ?thesis by (simp add: ParseUint_def)
  next
    case False
    with d have "\<not> list_all isDigit s'" by simp
    from ParseUint_loop_syntax[of 0 0 s', OF _ _ _ this] l False show ?thesis
      by (simp add: ParseUint_def)
  qed
  then show ?thesis using False
    unfolding Atoi_def ParseInt_def s'_def[symmetric] Let_def by simp
qed

lemma Atoi_error_values:
  "(snd (Atoi s) = Some ErrSyntax \<longrightarrow> fst (Atoi s) = 0)
   \<and> (snd (Atoi s) = Some ErrRange \<longrightarrow> fst (Atoi s) = maxInt64 \<or> fst (Atoi s) = minInt64)"
  by (auto simp: Atoi_def ParseInt_def Let_def split: prod.splits if_splits)

section \<open>Facts about absent fields\<close>

lemma key_prefix:
  assumes "strings_Contains part '':''"
  shows "prefix (take (nat (strings_Index part '':'')) part @ '':'') part"
proof -
  from assms have b: "0 \<le> strings_Index part '':''" by (simp add: strings_Contains_def)
  from strings_Index_decomp[OF b]
  have "part = (take (nat (strings_Index part '':'')) part @ '':'')
                 @ drop (nat (strings_Index part '':'') + length '':'') part" by simp
  then show ?thesis by (metis prefixI)
qed

text \<open>A field that does not begin with \<open>key:\<close> leaves the field of the tag that
  belongs to the key as it is.\<close>

lemma parseField_absent:
  assumes "parseField (tag, rt) part = Inr (tag', rt')"
  shows "(\<not> prefix ''kind:'' part \<longrightarrow> Kind tag' = Kind tag)"
    and "(\<not> prefix ''line:'' part \<longrightarrow> Line tag' = Line tag)"
    and "(\<not> prefix ''typeref:'' part \<longrightarrow> Typeref tag' = Typeref tag)"
    and "(\<not> prefix ''signature:'' part \<longrightarrow> Signature tag' = Signature tag)"
    and "(\<not> prefix ''class:'' part \<longrightarrow> Class tag' = Class tag)"
    and "(\<not> prefix ''struct:'' part \<longrightarrow> Struct tag' = Struct tag)"
    and "(\<not> prefix ''namespace:'' part \<longrightarrow> Namespace tag' = Namespace tag)"
    and "(\<not> prefix ''returntype:'' part \<longrightarrow> rt' = rt)"
    and "Prototype tag' = Prototype tag" and "PrototypeModifiers tag' = PrototypeModifiers tag"
proof -
  show "Prototype tag' = Prototype tag" and "PrototypeModifiers tag' = PrototypeModifiers tag"
    using assms parseField_slices[of part]
    by (cases "strings_Contains part '':''"; auto simp: Let_def split: if_splits)+
  show "(\<not> prefix ''kind:'' part \<longrightarrow> Kind tag' = Kind tag)"
    using assms parseField_slices[of part] key_prefix[of part]
    by (cases "strings_Contains part '':''") (auto simp: Let_def split: if_splits)
  show "(\<not> prefix ''line:'' part \<longrightarrow> Line tag' = Line tag)"
    using assms parseField_slices[of part] key_prefix[of part]
    by (cases "strings_Contains part '':''") (auto simp: Let_def split: if_splits)
  show "(\<not> prefix ''typeref:'' part \<longrightarrow> Typeref tag' = Typeref tag)"
    using assms parseField_slices[of part] key_prefix[of part]
    by (cases "strings_Contains part '':''") (auto simp: Let_def split: if_splits)
  show "(\<not> prefix ''signature:'' part \<longrightarrow> Signature tag' = Signature tag)"
    using assms parseField_slices[of part] key_prefix[of part]
    by (cases "strings_Contains part '':''") (auto simp: Let_def split: if_splits)
  show "(\<not> prefix ''class:'' part \<longrightarrow> Class tag' = Class tag)"
    using assms parseField_slices[of part] key_prefix[of part]
    by (cases "strings_Contains part '':''") (auto simp: Let_def split: if_splits)
  show "(\<not> prefix ''struct:'' part \<longrightarrow> Struct tag' = Struct tag)"
    using assms parseField_slices[of part] key_prefix[of part]
    by (cases "strings_Contains part '':''") (auto simp: Let_def split: if_splits)
  show "(\<not> prefix ''namespace:'' part \<longrightarrow> Namespace tag' = Namespace tag)"
    using assms parseField_slices[of part] key_prefix[of part]
    by (cases "strings_Contains part '':''") (auto simp: Let_def split: if_splits)
  show "(\<not> prefix ''returntype:'' part \<longrightarrow> rt' = rt)"
    using assms parseField_slices[of part] key_prefix[of part]
    by (cases "strings_Contains part '':''") (auto simp: Let_def split: if_splits)
qed

lemma parseFields_absent:
  assumes "parseFields (tag, rt) parts = Inr (tag', rt')"
  shows "(\<not> list_ex (prefix ''kind:'') parts \<longrightarrow> Kind tag' = Kind tag)
    \<and> (\<not> list_ex (prefix ''line:'') parts \<longrightarrow> Line tag' = Line tag)
    \<and> (\<not> list_ex (prefix ''typeref:'') parts \<longrightarrow> Typeref tag' = Typeref tag)
    \<and> (\<not> list_ex (prefix ''signature:'') parts \<longrightarrow> Signature tag' = Signature tag)
    \<and> (\<not> list_ex (prefix ''class:'') parts \<longrightarrow> Class tag' = Class tag)
    \<and> (\<not> list_ex (prefix ''struct:'') parts \<longrightarrow> Struct tag' = Struct tag)
    \<and> (\<not> list_ex (prefix ''namespace:'') parts \<longrightarrow> Namespace tag' = Namespace tag)
    \<and> (\<not> list_ex (prefix ''returntype:'') parts \<longrightarrow> rt' = rt)
    \<and> Prototype tag' = Prototype tag \<and> PrototypeModifiers tag' = PrototypeModifiers tag"
  using assms
proof (induction parts arbitrary: tag rt)
  case Nil then show ?case by simp
next
  case (Cons part parts)
  from Cons.prems obtain t1 r1 where s1: "parseField (tag, rt) part = Inr (t1, r1)"
    and s2: "parseFields (t1, r1) parts = Inr (tag', rt')"
    by (auto split: sum.splits)
  note a = parseField_absent[OF s1]
  note b = Cons.IH[OF s2]
  show ?case using a b by simp
qed

text \<open>The shape of a decoded tag: the tag after the loop over the fields, with the
  declaration set and, when the row has both markers, the snippet.\<close>

lemma parseTag_shape:
  assumes "parseTag row = Inr tag"
  shows "\<exists>t1 r1.
           parseFields (emptyTag\<lparr>FunctionName := strings_Split row TAB ! 0,
                          Filename := strings_ReplaceAll (strings_Split row TAB ! 1)
                                        [BACKSLASH, BACKSLASH] [BACKSLASH]\<rparr>, [])
             (drop 2 (strings_Split row TAB)) = Inr (t1, r1)
         \<and> (if strings_Contains row ''/^'' \<and> strings_Contains row ''$/;''
            then \<exists>code. tag = t1\<lparr>Prototype := r1 @ '' '' @ FunctionName t1 @ Signature t1 @ '';'',
                                  Code := code\<rparr>
            else tag = t1\<lparr>Prototype := r1 @ '' '' @ FunctionName t1 @ Signature t1 @ '';''\<rparr>)"
proof -
  let ?parts = "strings_Split row TAB"
  let ?tag0 = "emptyTag\<lparr>FunctionName := ?parts ! 0,
                 Filename := strings_ReplaceAll (?parts ! 1) [BACKSLASH, BACKSLASH] [BACKSLASH]\<rparr>"
  obtain t1 r1 where f: "parseFields (?tag0, []) (drop 2 ?parts) = Inr (t1, r1)"
    using parseFields_Inr[of ?tag0 "[]" "drop 2 ?parts"] by blast
  have "rowDecodable row" using assms parseTag_Inr_iff[of row] by blast
  then have "2 \<le> length ?parts" using strings_Split_two[of row TAB] by (simp add: rowDecodable_def)
  then have i: "index ?parts 0 = Inr (?parts ! 0)" "index ?parts 1 = Inr (?parts ! 1)"
    by (auto simp: index_def)
  let ?t2 = "t1\<lparr>Prototype := r1 @ '' '' @ FunctionName t1 @ Signature t1 @ '';''\<rparr>"
  have eq: "parseTag row =
              (if strings_Contains row ''/^'' \<and> strings_Contains row ''$/;''
               then (case slice row (strings_Index row ''/^'' + 2) (strings_Index row ''$/;'') of
                       Inl e \<Rightarrow> Inl e | Inr code \<Rightarrow> Inr (?t2\<lparr>Code := code\<rparr>))
               else Inr ?t2)"
    unfolding parseTag_def Let_def i sum.case f prod.case ..
  have "if strings_Contains row ''/^'' \<and> strings_Contains row ''$/;''
        then \<exists>code. tag = ?t2\<lparr>Code := code\<rparr> else tag = ?t2"
    using assms unfolding eq by (auto split: if_splits sum.splits)
  with f show ?thesis by blast
qed

lemma parseTag_defaults:
  assumes "parseTag row = Inr tag"
  shows "absentFieldsDefault row tag"
    and "FunctionName tag = strings_Split row TAB ! 0"
    and "Filename tag = strings_ReplaceAll (strings_Split row TAB ! 1) [BACKSLASH, BACKSLASH] [BACKSLASH]"
proof -
  let ?parts = "strings_Split row TAB"
  let ?tag0 = "emptyTag\<lparr>FunctionName := ?parts ! 0,
                 Filename := strings_ReplaceAll (?parts ! 1) [BACKSLASH, BACKSLASH] [BACKSLASH]\<rparr>"
  let ?m = "strings_Contains row ''/^'' \<and> strings_Contains row ''$/;''"
  from parseTag_shape[OF assms] obtain t1 r1 where
    f: "parseFields (?tag0, []) (drop 2 ?parts) = Inr (t1, r1)"
    and shape: "if ?m
            then \<exists>code. tag = t1\<lparr>Prototype := r1 @ '' '' @ FunctionName t1 @ Signature t1 @ '';'',
                                  Code := code\<rparr>
            else tag = t1\<lparr>Prototype := r1 @ '' '' @ FunctionName t1 @ Signature t1 @ '';''\<rparr>"
    by blast
  from parseFields_Inr[of ?tag0 "[]" "drop 2 ?parts"] f
  have k: "\<not> SkipMe t1" "FunctionName t1 = ?parts ! 0"
    "Filename t1 = strings_ReplaceAll (?parts ! 1) [BACKSLASH, BACKSLASH] [BACKSLASH]"
    "Code t1 = []"
    by (auto simp: emptyTag_def)
  note d = parseFields_absent[OF f]
  have t1: "(\<not> hasField row ''kind'' \<longrightarrow> Kind t1 = [])"
    "(\<not> hasField row ''line'' \<longrightarrow> Line t1 = 0)"
    "(\<not> hasField row ''typeref'' \<longrightarrow> Typeref t1 = [])"
    "(\<not> hasField row ''signature'' \<longrightarrow> Signature t1 = [])"
    "(\<not> hasField row ''class'' \<longrightarrow> Class t1 = [])"
    "(\<not> hasField row ''struct'' \<longrightarrow> Struct t1 = [])"
    "(\<not> hasField row ''namespace'' \<longrightarrow> Namespace t1 = [])"
    "(\<not> hasField row ''returntype'' \<longrightarrow> r1 = [])"
    "PrototypeModifiers t1 = []"
    using d by (simp_all add: hasField_def emptyTag_def)
  show "absentFieldsDefault row tag"
  proof (cases ?m)
    case True
    with shape obtain code where
      "tag = t1\<lparr>Prototype := r1 @ '' '' @ FunctionName t1 @ Signature t1 @ '';'', Code := code\<rparr>"
      by auto
    then show ?thesis using t1 k(1) True by (simp add: absentFieldsDefault_def)
  next
    case False
    with shape have "tag = t1\<lparr>Prototype := r1 @ '' '' @ FunctionName t1 @ Signature t1 @ '';''\<rparr>"
      by simp
    then show ?thesis using t1 k(1,4) False by (simp add: absentFieldsDefault_def)
  qed
  show "FunctionName tag = strings_Split row TAB ! 0"
    using shape k(2) by (cases ?m) auto
  show "Filename tag = strings_ReplaceAll (strings_Split row TAB ! 1) [BACKSLASH, BACKSLASH] [BACKSLASH]"
    using shape k(3) by (cases ?m) auto
qed

section \<open>Facts about the values of the fields\<close>

lemma strings_Index_key:
  "CHR '':'' \<notin> set key \<Longrightarrow> strings_Index (key @ '':'' @ v) '':'' = int (length key)"
  by (induction key) (auto simp: Let_def)

text \<open>A field that begins with a key and a colon: what the loop body does with it.\<close>

lemma parseField_keyed:
  assumes "CHR '':'' \<notin> set key"
  shows "parseField (tag, rt) (key @ '':'' @ v) =
           (if key = ''kind'' then Inr (tag\<lparr>Kind := strings_TrimSpace v\<rparr>, rt)
            else if key = ''line'' then Inr (tag\<lparr>Line := fst (Atoi (strings_TrimSpace v))\<rparr>, rt)
            else if key = ''typeref'' then Inr (tag\<lparr>Typeref := strings_TrimSpace v\<rparr>, rt)
            else if key = ''signature'' then Inr (tag\<lparr>Signature := strings_TrimSpace v\<rparr>, rt)
            else if key = ''returntype'' then Inr (tag, strings_TrimSpace v)
            else if key = ''class'' then Inr (tag\<lparr>Class := strings_TrimSpace v\<rparr>, rt)
            else if key = ''struct'' then Inr (tag\<lparr>Struct := strings_TrimSpace v\<rparr>, rt)
            else if key = ''namespace'' then Inr (tag\<lparr>Namespace := strings_TrimSpace v\<rparr>, rt)
            else Inr (tag, rt))"
proof -
  let ?part = "key @ '':'' @ v"
  have i: "strings_Index ?part '':'' = int (length key)" by (rule strings_Index_key[OF assms])
  have c: "strings_Contains ?part '':''" unfolding strings_Contains_def i by simp
  have s1: "slice ?part 0 (int (length key)) = Inr key" by (simp add: slice_def)
  have s2: "slice ?part (int (length key) + 1) (int (length ?part)) = Inr v"
    by (simp add: slice_def nat_add_distrib)
  show ?thesis
    unfolding parseField.simps i Let_def s1 s2 sum.case using c by (simp only: if_True)
qed

text \<open>What the loop body makes of one field, key by key.\<close>

lemma parseField_value:
  assumes "parseField (tag, rt) part = Inr (t1, r1)"
  shows "Kind t1 = (if prefix ''kind:'' part then strings_TrimSpace (drop 5 part) else Kind tag)
    \<and> Line t1 = (if prefix ''line:'' part then fst (Atoi (strings_TrimSpace (drop 5 part)))
                 else Line tag)
    \<and> Typeref t1 = (if prefix ''typeref:'' part then strings_TrimSpace (drop 8 part)
                    else Typeref tag)
    \<and> Signature t1 = (if prefix ''signature:'' part then strings_TrimSpace (drop 10 part)
                      else Signature tag)
    \<and> Class t1 = (if prefix ''class:'' part then strings_TrimSpace (drop 6 part) else Class tag)
    \<and> Struct t1 = (if prefix ''struct:'' part then strings_TrimSpace (drop 7 part)
                   else Struct tag)
    \<and> Namespace t1 = (if prefix ''namespace:'' part then strings_TrimSpace (drop 10 part)
                      else Namespace tag)
    \<and> r1 = (if prefix ''returntype:'' part then strings_TrimSpace (drop 11 part) else rt)"
proof -
  note a = parseField_absent[OF assms]
  have 1: "Kind t1 = (if prefix ''kind:'' part then strings_TrimSpace (drop 5 part) else Kind tag)"
  proof (cases "prefix ''kind:'' part")
    case True
    then obtain v where e: "part = ''kind'' @ '':'' @ v" by (auto simp: prefix_def)
    have "parseField (tag, rt) part = Inr (tag\<lparr>Kind := strings_TrimSpace v\<rparr>, rt)"
      unfolding e using parseField_keyed[of "''kind''" tag rt v]
      by (simp del: parseField.simps)
    moreover have "drop 5 part = v" unfolding e by simp
    ultimately show ?thesis using assms True by (auto simp del: parseField.simps)
  next
    case False
    then show ?thesis using a(1) by simp
  qed
  have 2: "Line t1 = (if prefix ''line:'' part then fst (Atoi (strings_TrimSpace (drop 5 part))) else Line tag)"
  proof (cases "prefix ''line:'' part")
    case True
    then obtain v where e: "part = ''line'' @ '':'' @ v" by (auto simp: prefix_def)
    have "parseField (tag, rt) part = Inr (tag\<lparr>Line := fst (Atoi (strings_TrimSpace v))\<rparr>, rt)"
      unfolding e using parseField_keyed[of "''line''" tag rt v]
      by (simp del: parseField.simps)
    moreover have "drop 5 part = v" unfolding e by simp
    ultimately show ?thesis using assms True by (auto simp del: parseField.simps)
  next
    case False
    then show ?thesis using a(2) by simp
  qed
  have 3: "Typeref t1 = (if prefix ''typeref:'' part then strings_TrimSpace (drop 8 part) else Typeref tag)"
  proof (cases "prefix ''typeref:'' part")
    case True
    then obtain v where e: "part = ''typeref'' @ '':'' @ v" by (auto simp: prefix_def)
    have "parseField (tag, rt) part = Inr (tag\<lparr>Typeref := strings_TrimSpace v\<rparr>, rt)"
      unfolding e using parseField_keyed[of "''typeref''" tag rt v]
      by (simp del: parseField.simps)
    moreover have "drop 8 part = v" unfolding e by simp
    ultimately show ?thesis using assms True by (auto simp del: parseField.simps)
  next
    case False
    then show ?thesis using a(3) by simp
  qed
  have 4: "Signature t1 = (if prefix ''signature:'' part then strings_TrimSpace (drop 10 part) else Signature tag)"
  proof (cases "prefix ''signature:'' part")
    case True
    then obtain v where e: "part = ''signature'' @ '':'' @ v" by (auto simp: prefix_def)
    have "parseField (tag, rt) part = Inr (tag\<lparr>Signature := strings_TrimSpace v\<rparr>, rt)"
      unfolding e using parseField_keyed[of "''signature''" tag rt v]
      by (simp del: parseField.simps)
    moreover have "drop 10 part = v" unfolding e by simp
    ultimately show ?thesis using assms True by (auto simp del: parseField.simps)
  next
    case False
    then show ?thesis using a(4) by simp
  qed
  have 5: "Class t1 = (if prefix ''class:'' part then strings_TrimSpace (drop 6 part) else Class tag)"
  proof (cases "prefix ''class:'' part")
    case True
    then obtain v where e: "part = ''class'' @ '':'' @ v" by (auto simp: prefix_def)
    have "parseField (tag, rt) part = Inr (tag\<lparr>Class := strings_TrimSpace v\<rparr>, rt)"
      unfolding e using parseField_keyed[of "''class''" tag rt v]
      by (simp del: parseField.simps)
    moreover have "drop 6 part = v" unfolding e by simp
    ultimately show ?thesis using assms True by (auto simp del: parseField.simps)
  next
    case False
    then show ?thesis using a(5) by simp
  qed
  have 6: "Struct t1 = (if prefix ''struct:'' part then strings_TrimSpace (drop 7 part) else Struct tag)"
  proof (cases "prefix ''struct:'' part")
    case True
    then obtain v where e: "part = ''struct'' @ '':'' @ v" by (auto simp: prefix_def)
    have "parseField (tag, rt) part = Inr (tag\<lparr>Struct := strings_TrimSpace v\<rparr>, rt)"
      unfolding e using parseField_keyed[of "''struct''" tag rt v]
      by (simp del: parseField.simps)
    moreover have "drop 7 part = v" unfolding e by simp
    ultimately show ?thesis using assms True by (auto simp del: parseField.simps)
  next
    case False
    then show ?thesis using a(6) by simp
  qed
  have 7: "Namespace t1 = (if prefix ''namespace:'' part then strings_TrimSpace (drop 10 part) else Namespace tag)"
  proof (cases "prefix ''namespace:'' part")
    case True
    then obtain v where e: "part = ''namespace'' @ '':'' @ v" by (auto simp: prefix_def)
    have "parseField (tag, rt) part = Inr (tag\<lparr>Namespace := strings_TrimSpace v\<rparr>, rt)"
      unfolding e using parseField_keyed[of "''namespace''" tag rt v]
      by (simp del: parseField.simps)
    moreover have "drop 10 part = v" unfolding e by simp
    ultimately show ?thesis using assms True by (auto simp del: parseField.simps)
  next
    case False
    then show ?thesis using a(7) by simp
  qed
  have 8: "r1 = (if prefix ''returntype:'' part then strings_TrimSpace (drop 11 part) else rt)"
  proof (cases "prefix ''returntype:'' part")
    case True
    then obtain v where e: "part = ''returntype'' @ '':'' @ v" by (auto simp: prefix_def)
    have "parseField (tag, rt) part = Inr (tag, strings_TrimSpace v)"
      unfolding e using parseField_keyed[of "''returntype''" tag rt v]
      by (simp del: parseField.simps)
    moreover have "drop 11 part = v" unfolding e by simp
    ultimately show ?thesis using assms True by (auto simp del: parseField.simps)
  next
    case False
    then show ?thesis using a(8) by simp
  qed
  from 1 2 3 4 5 6 7 8 show ?thesis by blast
qed

lemma fieldValue_Nil: "fieldValue key [] = None"
  by (simp add: fieldValue_def)

lemma fieldValue_Cons:
  "fieldValue key (part # parts) =
     (case fieldValue key parts of
        Some v \<Rightarrow> Some v
      | None \<Rightarrow> if prefix (key @ '':'') part
                then Some (strings_TrimSpace (drop (length key + 1) part)) else None)"
  by (cases "filter (prefix (key @ '':'')) parts") (simp_all add: fieldValue_def)

lemma fieldValue_Cons_keys:
  shows "fieldValue ''kind'' (part # parts) =
     (case fieldValue ''kind'' parts of
        Some v \<Rightarrow> Some v
      | None \<Rightarrow> if prefix ''kind:'' part then Some (strings_TrimSpace (drop 5 part)) else None)"
    and "fieldValue ''line'' (part # parts) =
     (case fieldValue ''line'' parts of
        Some v \<Rightarrow> Some v
      | None \<Rightarrow> if prefix ''line:'' part then Some (strings_TrimSpace (drop 5 part)) else None)"
    and "fieldValue ''typeref'' (part # parts) =
     (case fieldValue ''typeref'' parts of
        Some v \<Rightarrow> Some v
      | None \<Rightarrow> if prefix ''typeref:'' part then Some (strings_TrimSpace (drop 8 part)) else None)"
    and "fieldValue ''signature'' (part # parts) =
     (case fieldValue ''signature'' parts of
        Some v \<Rightarrow> Some v
      | None \<Rightarrow> if prefix ''signature:'' part then Some (strings_TrimSpace (drop 10 part)) else None)"
    and "fieldValue ''class'' (part # parts) =
     (case fieldValue ''class'' parts of
        Some v \<Rightarrow> Some v
      | None \<Rightarrow> if prefix ''class:'' part then Some (strings_TrimSpace (drop 6 part)) else None)"
    and "fieldValue ''struct'' (part # parts) =
     (case fieldValue ''struct'' parts of
        Some v \<Rightarrow> Some v
      | None \<Rightarrow> if prefix ''struct:'' part then Some (strings_TrimSpace (drop 7 part)) else None)"
    and "fieldValue ''namespace'' (part # parts) =
     (case fieldValue ''namespace'' parts of
        Some v \<Rightarrow> Some v
      | None \<Rightarrow> if prefix ''namespace:'' part then Some (strings_TrimSpace (drop 10 part)) else None)"
    and "fieldValue ''returntype'' (part # parts) =
     (case fieldValue ''returntype'' parts of
        Some v \<Rightarrow> Some v
      | None \<Rightarrow> if prefix ''returntype:'' part then Some (strings_TrimSpace (drop 11 part)) else None)"
  by (auto simp: fieldValue_Cons eval_nat_numeral split: option.splits)

text \<open>After the loop every recognised key has the value of its last field.\<close>

lemma parseFields_value:
  assumes "parseFields (tag, rt) parts = Inr (tag', rt')"
  shows "Kind tag' = (case fieldValue ''kind'' parts of None \<Rightarrow> Kind tag | Some v \<Rightarrow> v)
    \<and> Line tag' = (case fieldValue ''line'' parts of None \<Rightarrow> Line tag | Some v \<Rightarrow> fst (Atoi v))
    \<and> Typeref tag' = (case fieldValue ''typeref'' parts of None \<Rightarrow> Typeref tag | Some v \<Rightarrow> v)
    \<and> Signature tag' = (case fieldValue ''signature'' parts of None \<Rightarrow> Signature tag | Some v \<Rightarrow> v)
    \<and> Class tag' = (case fieldValue ''class'' parts of None \<Rightarrow> Class tag | Some v \<Rightarrow> v)
    \<and> Struct tag' = (case fieldValue ''struct'' parts of None \<Rightarrow> Struct tag | Some v \<Rightarrow> v)
    \<and> Namespace tag' = (case fieldValue ''namespace'' parts of None \<Rightarrow> Namespace tag | Some v \<Rightarrow> v)
    \<and> rt' = (case fieldValue ''returntype'' parts of None \<Rightarrow> rt | Some v \<Rightarrow> v)"
  using assms
proof (induction parts arbitrary: tag rt)
  case Nil then show ?case by (simp add: fieldValue_Nil)
next
  case (Cons part parts)
  from Cons.prems obtain t1 r1 where s1: "parseField (tag, rt) part = Inr (t1, r1)"
    and s2: "parseFields (t1, r1) parts = Inr (tag', rt')"
    by (auto split: sum.splits)
  note v = parseField_value[OF s1]
  note b = Cons.IH[OF s2]
  have 1: "Kind tag' = (case fieldValue ''kind'' (part # parts) of None \<Rightarrow> Kind tag | Some v \<Rightarrow> v)"
  proof -
    from v have "Kind t1 = (if prefix ''kind:'' part then strings_TrimSpace (drop 5 part) else Kind tag)" by blast
    moreover from b have "Kind tag' = (case fieldValue ''kind'' parts of None \<Rightarrow> Kind t1 | Some v \<Rightarrow> v)"
      by blast
    ultimately show ?thesis
      by (simp add: fieldValue_Cons_keys(1) split: option.splits)
  qed
  have 2: "Line tag' = (case fieldValue ''line'' (part # parts) of None \<Rightarrow> Line tag | Some v \<Rightarrow> fst (Atoi (v)))"
  proof -
    from v have "Line t1 = (if prefix ''line:'' part then fst (Atoi (strings_TrimSpace (drop 5 part))) else Line tag)" by blast
    moreover from b have "Line tag' = (case fieldValue ''line'' parts of None \<Rightarrow> Line t1 | Some v \<Rightarrow> fst (Atoi (v)))"
      by blast
    ultimately show ?thesis
      by (simp add: fieldValue_Cons_keys(2) split: option.splits)
  qed
  have 3: "Typeref tag' = (case fieldValue ''typeref'' (part # parts) of None \<Rightarrow> Typeref tag | Some v \<Rightarrow> v)"
  proof -
    from v have "Typeref t1 = (if prefix ''typeref:'' part then strings_TrimSpace (drop 8 part) else Typeref tag)" by blast
    moreover from b have "Typeref tag' = (case fieldValue ''typeref'' parts of None \<Rightarrow> Typeref t1 | Some v \<Rightarrow> v)"
      by blast
    ultimately show ?thesis
      by (simp add: fieldValue_Cons_keys(3) split: option.splits)
  qed
  have 4: "Signature tag' = (case fieldValue ''signature'' (part # parts) of None \<Rightarrow> Signature tag | Some v \<Rightarrow> v)"
  proof -
    from v have "Signature t1 = (if prefix ''signature:'' part then strings_TrimSpace (drop 10 part) else Signature tag)" by blast
    moreover from b have "Signature tag' = (case fieldValue ''signature'' parts of None \<Rightarrow> Signature t1 | Some v \<Rightarrow> v)"
      by blast
    ultimately show ?thesis
      by (simp add: fieldValue_Cons_keys(4) split: option.splits)
  qed
  have 5: "Class tag' = (case fieldValue ''class'' (part # parts) of None \<Rightarrow> Class tag | Some v \<Rightarrow> v)"
  proof -
    from v have "Class t1 = (if prefix ''class:'' part then strings_TrimSpace (drop 6 part) else Class tag)" by blast
    moreover from b have "Class tag' = (case fieldValue ''class'' parts of None \<Rightarrow> Class t1 | Some v \<Rightarrow> v)"
      by blast
    ultimately show ?thesis
      by (simp add: fieldValue_Cons_keys(5) split: option.splits)
  qed
  have 6: "Struct tag' = (case fieldValue ''struct'' (part # parts) of None \<Rightarrow> Struct tag | Some v \<Rightarrow> v)"
  proof -
    from v have "Struct t1 = (if prefix ''struct:'' part then strings_TrimSpace (drop 7 part) else Struct tag)" by blast
    moreover from b have "Struct tag' = (case fieldValue ''struct'' parts of None \<Rightarrow> Struct t1 | Some v \<Rightarrow> v)"
      by blast
    ultimately show ?thesis
      by (simp add: fieldValue_Cons_keys(6) split: option.splits)
  qed
  have 7: "Namespace tag' = (case fieldValue ''namespace'' (part # parts) of None \<Rightarrow> Namespace tag | Some v \<Rightarrow> v)"
  proof -
    from v have "Namespace t1 = (if prefix ''namespace:'' part then strings_TrimSpace (drop 10 part) else Namespace tag)" by blast
    moreover from b have "Namespace tag' = (case fieldValue ''namespace'' parts of None \<Rightarrow> Namespace t1 | Some v \<Rightarrow> v)"
      by blast
    ultimately show ?thesis
      by (simp add: fieldValue_Cons_keys(7) split: option.splits)
  qed
  have 8: "rt' = (case fieldValue ''returntype'' (part # parts) of None \<Rightarrow> rt | Some v \<Rightarrow> v)"
  proof -
    from v have "r1 = (if prefix ''returntype:'' part then strings_TrimSpace (drop 11 part) else rt)" by blast
    moreover from b have "rt' = (case fieldValue ''returntype'' parts of None \<Rightarrow> r1 | Some v \<Rightarrow> v)"
      by blast
    ultimately show ?thesis
      by (simp add: fieldValue_Cons_keys(8) split: option.splits)
  qed
  from 1 2 3 4 5 6 7 8 show ?case by blast
qed

text \<open>The decoder agrees with the description of the decoded tag on every row that it
  decodes, and panics on every other row.\<close>

lemma parseTag_decodedTag:
  "parseTag row =
     (if TAB \<notin> set row then Inl IndexOutOfRange
      else if \<not> rowDecodable row then Inl SliceBoundsOutOfRange
      else Inr (decodedTag row))"
proof (cases "TAB \<in> set row")
  case False
  let ?parts = "strings_Split row TAB"
  have "0 < length ?parts" by (simp add: length_strings_Split)
  moreover have "\<not> 1 < length ?parts" using False strings_Split_two[of row TAB] by simp
  ultimately have "parseTag row = Inl IndexOutOfRange"
    by (simp add: parseTag_def index_def Let_def)
  then show ?thesis using False by simp
next
  case True
  let ?parts = "strings_Split row TAB"
  let ?tag0 = "emptyTag\<lparr>FunctionName := ?parts ! 0,
                 Filename := strings_ReplaceAll (?parts ! 1) [BACKSLASH, BACKSLASH] [BACKSLASH]\<rparr>"
  let ?m = "strings_Contains row ''/^'' \<and> strings_Contains row ''$/;''"
  obtain t1 r1 where f: "parseFields (?tag0, []) (drop 2 ?parts) = Inr (t1, r1)"
    and k: "SkipMe t1 = SkipMe ?tag0" "FunctionName t1 = FunctionName ?tag0"
      "Filename t1 = Filename ?tag0" "Code t1 = Code ?tag0"
    using parseFields_Inr[of ?tag0 "[]" "drop 2 ?parts"] by blast
  from True have "2 \<le> length ?parts" using strings_Split_two[of row TAB] by simp
  then have i: "index ?parts 0 = Inr (?parts ! 0)" "index ?parts 1 = Inr (?parts ! 1)"
    by (auto simp: index_def)
  let ?t2 = "t1\<lparr>Prototype := r1 @ '' '' @ FunctionName t1 @ Signature t1 @ '';''\<rparr>"
  have eq: "parseTag row =
              (if ?m
               then (case slice row (strings_Index row ''/^'' + 2) (strings_Index row ''$/;'') of
                       Inl e \<Rightarrow> Inl e | Inr code \<Rightarrow> Inr (?t2\<lparr>Code := code\<rparr>))
               else Inr ?t2)"
    unfolding parseTag_def Let_def i sum.case f prod.case ..
  note a = parseFields_absent[OF f]
  note v = parseFields_value[OF f]
  have dec: "?t2\<lparr>Code := snippetOf row\<rparr> = decodedTag row"
  proof (rule CTag.equality)
    show "FunctionName (?t2\<lparr>Code := snippetOf row\<rparr>) = FunctionName (decodedTag row)"
      using k(2) by (simp add: decodedTag_def)
    show "Kind (?t2\<lparr>Code := snippetOf row\<rparr>) = Kind (decodedTag row)"
      using v by (simp add: decodedTag_def fieldText_def fieldsOf_def emptyTag_def cong: option.case_cong)
    show "Line (?t2\<lparr>Code := snippetOf row\<rparr>) = Line (decodedTag row)"
      using v by (simp add: decodedTag_def fieldText_def fieldsOf_def emptyTag_def cong: option.case_cong)
    show "Code (?t2\<lparr>Code := snippetOf row\<rparr>) = Code (decodedTag row)"
      by (simp add: decodedTag_def)
    show "Class (?t2\<lparr>Code := snippetOf row\<rparr>) = Class (decodedTag row)"
      using v by (simp add: decodedTag_def fieldText_def fieldsOf_def emptyTag_def cong: option.case_cong)
    show "Struct (?t2\<lparr>Code := snippetOf row\<rparr>) = Struct (decodedTag row)"
      using v by (simp add: decodedTag_def fieldText_def fieldsOf_def emptyTag_def cong: option.case_cong)
    show "Namespace (?t2\<lparr>Code := snippetOf row\<rparr>) = Namespace (decodedTag row)"
      using v by (simp add: decodedTag_def fieldText_def fieldsOf_def emptyTag_def cong: option.case_cong)
    show "Filename (?t2\<lparr>Code := snippetOf row\<rparr>) = Filename (decodedTag row)"
      using k(3) by (simp add: decodedTag_def)
    show "Typeref (?t2\<lparr>Code := snippetOf row\<rparr>) = Typeref (decodedTag row)"
      using v by (simp add: decodedTag_def fieldText_def fieldsOf_def emptyTag_def cong: option.case_cong)
    show "SkipMe (?t2\<lparr>Code := snippetOf row\<rparr>) = SkipMe (decodedTag row)"
      using k(1) by (simp add: decodedTag_def emptyTag_def)
    show "Signature (?t2\<lparr>Code := snippetOf row\<rparr>) = Signature (decodedTag row)"
      using v by (simp add: decodedTag_def fieldText_def fieldsOf_def emptyTag_def cong: option.case_cong)
    show "Prototype (?t2\<lparr>Code := snippetOf row\<rparr>) = Prototype (decodedTag row)"
      using v k(2) by (simp add: decodedTag_def fieldText_def fieldsOf_def emptyTag_def cong: option.case_cong)
    show "PrototypeModifiers (?t2\<lparr>Code := snippetOf row\<rparr>) = PrototypeModifiers (decodedTag row)"
      using a by (simp add: decodedTag_def emptyTag_def)
    show "CTag.more (?t2\<lparr>Code := snippetOf row\<rparr>) = CTag.more (decodedTag row)"
      by simp
  qed
  show ?thesis
  proof (cases ?m)
    case False
    then have "snippetOf row = []" unfolding snippetOf_def by (simp only: if_False)
    moreover have "Code t1 = []" using k(4) by (simp add: emptyTag_def)
    ultimately have "?t2\<lparr>Code := snippetOf row\<rparr> = ?t2" by simp
    then have "parseTag row = Inr (decodedTag row)" using eq False dec by simp
    moreover have "rowDecodable row" using True False by (auto simp: rowDecodable_def)
    ultimately show ?thesis using True by simp
  next
    case both: True
    then have b1: "0 \<le> strings_Index row ''/^''" and b2: "0 \<le> strings_Index row ''$/;''"
      by (simp_all add: strings_Contains_def)
    have u2: "strings_Index row ''$/;'' \<le> int (length row)"
      using strings_Index_bound[OF b2] by simp
    show ?thesis
    proof (cases "strings_Index row ''/^'' + 2 \<le> strings_Index row ''$/;''")
      case ord: True
      then have "slice row (strings_Index row ''/^'' + 2) (strings_Index row ''$/;'')
                   = Inr (snippetOf row)"
        using b1 u2 both by (simp add: slice_def snippetOf_def)
      then have "parseTag row = Inr (decodedTag row)" using eq both dec by simp
      moreover have "rowDecodable row" using True ord by (auto simp: rowDecodable_def)
      ultimately show ?thesis using True by simp
    next
      case ord: False
      then have "slice row (strings_Index row ''/^'' + 2) (strings_Index row ''$/;'')
                   = Inl SliceBoundsOutOfRange"
        by (simp add: slice_def)
      then have "parseTag row = Inl SliceBoundsOutOfRange" using eq both by simp
      moreover have "\<not> rowDecodable row" using both ord by (auto simp: rowDecodable_def)
      ultimately show ?thesis using True by simp
    qed
  qed
qed

lemma parseRows_decoded:
  "\<forall>row \<in> set rows. rowDecodable row \<Longrightarrow>
     parseRows acc rows = Inr (acc @ map decodedTag rows)"
  by (induction rows arbitrary: acc) (simp_all add: parseTag_decodedTag rowDecodable_def)

text \<open>The value of a key depends on the fields of that key only, and a field of another
  key is not a \<open>line\<close> field.\<close>

lemma fieldValue_filter:
  assumes "\<And>p. prefix (key @ '':'') p \<Longrightarrow> Q p"
  shows "fieldValue key (filter Q parts) = fieldValue key parts"
proof -
  have "filter (prefix (key @ '':'')) (filter Q parts) = filter (prefix (key @ '':'')) parts"
    unfolding filter_filter using assms by (intro filter_cong) auto
  then show ?thesis by (simp add: fieldValue_def)
qed

lemma not_line_field:
  "prefix ''kind:'' p \<Longrightarrow> \<not> prefix ''line:'' p"
  "prefix ''typeref:'' p \<Longrightarrow> \<not> prefix ''line:'' p"
  "prefix ''signature:'' p \<Longrightarrow> \<not> prefix ''line:'' p"
  "prefix ''class:'' p \<Longrightarrow> \<not> prefix ''line:'' p"
  "prefix ''struct:'' p \<Longrightarrow> \<not> prefix ''line:'' p"
  "prefix ''namespace:'' p \<Longrightarrow> \<not> prefix ''line:'' p"
  "prefix ''returntype:'' p \<Longrightarrow> \<not> prefix ''line:'' p"
  by (auto simp: prefix_def)

lemma fieldText_without_line:
  assumes "filter (\<lambda>p. \<not> prefix ''line:'' p) (fieldsOf row')
             = filter (\<lambda>p. \<not> prefix ''line:'' p) (fieldsOf row)"
  shows "fieldText row' ''kind'' = fieldText row ''kind''"
    and "fieldText row' ''typeref'' = fieldText row ''typeref''"
    and "fieldText row' ''signature'' = fieldText row ''signature''"
    and "fieldText row' ''class'' = fieldText row ''class''"
    and "fieldText row' ''struct'' = fieldText row ''struct''"
    and "fieldText row' ''namespace'' = fieldText row ''namespace''"
    and "fieldText row' ''returntype'' = fieldText row ''returntype''"
proof -
  have k: "fieldValue key (fieldsOf row') = fieldValue key (fieldsOf row)"
    if "\<And>p. prefix (key @ '':'') p \<Longrightarrow> \<not> prefix ''line:'' p" for key
    using fieldValue_filter[of key "\<lambda>p. \<not> prefix ''line:'' p" "fieldsOf row'", OF that]
      fieldValue_filter[of key "\<lambda>p. \<not> prefix ''line:'' p" "fieldsOf row", OF that] assms
    by simp
  show "fieldText row' ''kind'' = fieldText row ''kind''"
    using k[of "''kind''"] not_line_field(1) by (simp add: fieldText_def)
  show "fieldText row' ''typeref'' = fieldText row ''typeref''"
    using k[of "''typeref''"] not_line_field(2) by (simp add: fieldText_def)
  show "fieldText row' ''signature'' = fieldText row ''signature''"
    using k[of "''signature''"] not_line_field(3) by (simp add: fieldText_def)
  show "fieldText row' ''class'' = fieldText row ''class''"
    using k[of "''class''"] not_line_field(4) by (simp add: fieldText_def)
  show "fieldText row' ''struct'' = fieldText row ''struct''"
    using k[of "''struct''"] not_line_field(5) by (simp add: fieldText_def)
  show "fieldText row' ''namespace'' = fieldText row ''namespace''"
    using k[of "''namespace''"] not_line_field(6) by (simp add: fieldText_def)
  show "fieldText row' ''returntype'' = fieldText row ''returntype''"
    using k[of "''returntype''"] not_line_field(7) by (simp add: fieldText_def)
qed

text \<open>Two rows with the same name, the same file and the same fields apart from their
  \<open>line\<close> fields: their tags differ at most in the line and in the snippet.\<close>

lemma decodedTag_without_line:
  assumes "strings_Split row' TAB ! 0 = strings_Split row TAB ! 0"
    and "strings_Split row' TAB ! 1 = strings_Split row TAB ! 1"
    and "filter (\<lambda>p. \<not> prefix ''line:'' p) (fieldsOf row')
           = filter (\<lambda>p. \<not> prefix ''line:'' p) (fieldsOf row)"
  shows "(decodedTag row')\<lparr>Line := Line (decodedTag row), Code := Code (decodedTag row)\<rparr>
           = decodedTag row"
  using assms(1,2) fieldText_without_line[OF assms(3)] by (simp add: decodedTag_def)

section \<open>The write-once flag and the duplicate resolver\<close>

text \<open>
  C7. The flag \<open>SkipMe\<close> is only ever set: each of the six stages of the pipeline (the
  kind filter, the scope filter, the synthesizer, the shadow resolver, the duplicate
  resolver and the consistency filter, whatever predicate it applies) keeps the number of
  tags, and a tag that is suppressed before the stage is suppressed after it. The
  synthesizer moreover always returns.
\<close>

theorem suppressed_is_write_once:
  "keepsSuppressed ts (skipTagsWhere tagIsUnknown ts)
   \<and> keepsSuppressed ts (skipTagsWhere tagIsUnhandled ts)
   \<and> (\<exists>ts'. addPrototypes findTemplateMultiline ts = Inr ts' \<and> keepsSuppressed ts ts')
   \<and> keepsSuppressed ts (removeDefinedProtypes ts)
   \<and> keepsSuppressed ts (skipDuplicates ts)
   \<and> keepsSuppressed ts (skipTagsWhere prototypeAndCodeDontMatch ts)"
proof -
  obtain ts' where a: "addPrototypes findTemplateMultiline ts = Inr ts'"
    using addPrototypes_Inr[of findTemplateMultiline ts] by blast
  have "keepsSuppressed ts ts'"
    using addPrototypes_frame[OF a]
    by (auto simp: keepsSuppressed_def list_all2_conv_all_nth)
  with a show ?thesis
    by (simp add: keepsSuppressed_suppressesOnly skipTagsWhere_suppressesOnly
        removeDefinedProtypes_suppressesOnly skipDuplicates_suppressesOnly)
qed

theorem suppressed_is_write_once_witness:
  "SkipMe (suppressedFirst ! 0)
   \<and> SkipMe (skipTagsWhere tagIsUnknown suppressedFirst ! 0)
   \<and> SkipMe (skipTagsWhere tagIsUnhandled suppressedFirst ! 0)
   \<and> (\<exists>ts'. addPrototypes noMultilineText suppressedFirst = Inr ts' \<and> SkipMe (ts' ! 0))
   \<and> SkipMe (removeDefinedProtypes suppressedFirst ! 0)
   \<and> SkipMe (skipDuplicates suppressedFirst ! 0)
   \<and> SkipMe (skipTagsWhere codeAlwaysMatches suppressedFirst ! 0)"
proof -
  have s: "SkipMe (suppressedFirst ! 0)" and l: "0 < length suppressedFirst"
    by (simp_all add: suppressedFirst_def exampleTag_def)
  show ?thesis
    using suppressed_is_write_once[of suppressedFirst noMultilineText codeAlwaysMatches] s l
    unfolding keepsSuppressed_def by blast
qed

text \<open>
  C10. In the duplicate resolver a tag that is already suppressed when it is scanned does
  not enter its declaration in the set of seen declarations: a tag that is not suppressed
  and whose declaration is borne, before it, by suppressed tags only is left as it is,
  not suppressed.
\<close>

theorem suppressed_tag_not_registered:
  assumes "j < length ts" and "\<not> SkipMe (ts ! j)"
    and "\<forall>i<j. Prototype (ts ! i) = Prototype (ts ! j) \<longrightarrow> SkipMe (ts ! i)"
  shows "skipDuplicates ts ! j = ts ! j \<and> \<not> SkipMe (skipDuplicates ts ! j)"
proof -
  have "\<not> (\<exists>i<j. \<not> SkipMe (ts ! i) \<and> Prototype (ts ! i) = Prototype (ts ! j))"
    using assms(3) by blast
  then have "skipDuplicates ts ! j = (ts ! j)\<lparr>SkipMe := SkipMe (ts ! j)\<rparr>"
    using assms(1,2) by (simp add: skipDuplicates_nth)
  then show ?thesis using assms(2) by simp
qed

theorem suppressed_tag_not_registered_witness:
  "SkipMe (suppressedFirst ! 0)
   \<and> Prototype (suppressedFirst ! 0) = Prototype (suppressedFirst ! 1)
   \<and> \<not> SkipMe (suppressedFirst ! 1)
   \<and> \<not> SkipMe (skipDuplicates suppressedFirst ! 1)"
proof -
  have h: "1 < length suppressedFirst" "\<not> SkipMe (suppressedFirst ! 1)"
    "\<forall>i<1. Prototype (suppressedFirst ! i) = Prototype (suppressedFirst ! 1)
              \<longrightarrow> SkipMe (suppressedFirst ! i)"
    by (simp_all add: suppressedFirst_def exampleTag_def)
  have c: "\<not> SkipMe (skipDuplicates suppressedFirst ! 1)"
    using suppressed_tag_not_registered[OF h] by blast
  have "SkipMe (suppressedFirst ! 0)
          \<and> Prototype (suppressedFirst ! 0) = Prototype (suppressedFirst ! 1)"
    by (simp add: suppressedFirst_def exampleTag_def)
  with h(2) c show ?thesis by blast
qed

section \<open>The kind filter and the scope filter\<close>

text \<open>
  C4. Every tag that the pipeline returns and whose kind is neither \<open>function\<close> nor
  \<open>prototype\<close> is suppressed, whatever its other fields are.
\<close>

theorem unknown_kind_suppressed:
  assumes "Parse findTemplateMultiline prototypeAndCodeDontMatch p ctagsOutput mf = Inr p'"
  shows "\<forall>tag \<in> set (tags p').
           Kind tag \<noteq> ''function'' \<and> Kind tag \<noteq> ''prototype'' \<longrightarrow> SkipMe tag"
proof -
  let ?R = "\<lambda>t t'. decodedFields t' = decodedFields t \<and> (SkipMe t \<longrightarrow> SkipMe t')"
  from Parse_stages[OF assms] obtain ts0 where
    R: "list_all2 ?R (skipTagsWhere tagIsUnknown ts0) (tags p')" by blast
  have len: "length (tags p') = length ts0"
    using list_all2_lengthD[OF R] by (simp add: length_skipTagsWhere)
  show ?thesis
  proof (intro ballI impI)
    fix tag assume "tag \<in> set (tags p')"
      and k: "Kind tag \<noteq> ''function'' \<and> Kind tag \<noteq> ''prototype''"
    then obtain i where i: "i < length (tags p')" and tag: "tag = tags p' ! i"
      by (auto simp: in_set_conv_nth)
    from i len have i0: "i < length ts0" by simp
    have Ri: "?R (skipTagsWhere tagIsUnknown ts0 ! i) (tags p' ! i)"
      using list_all2_nthD2[OF R i] .
    have "Kind (ts0 ! i) = Kind tag"
      using decodedFields_eqD(3)[OF conjunct1[OF Ri]] i0 tag by (simp add: skipTagsWhere_nth)
    then have "tagIsUnknown (ts0 ! i)" using k by (simp add: tagIsUnknown_def KNOWN_TAG_KINDS_def)
    then have "SkipMe (skipTagsWhere tagIsUnknown ts0 ! i)" using i0 by (simp add: skipTagsWhere_nth)
    then show "SkipMe tag" using Ri tag by blast
  qed
qed

theorem unknown_kind_suppressed_witness:
  "(\<exists>p'. Parse noMultilineText codeAlwaysMatches newParser unknownKindOutput None = Inr p'
      \<and> map Kind (tags p') = [''variable''] \<and> map SkipMe (tags p') = [True])"
proof -
  let ?p = "\<lparr>tags = [\<lparr>FunctionName = ''counter'', Kind = ''variable'', Line = 1,
                Code = ''int counter;'', Class = [], Struct = [], Namespace = [],
                Filename = ''sketch.ino'', Typeref = [], SkipMe = True, Signature = [],
                Prototype = '' counter;'', PrototypeModifiers = []\<rparr>],
             mainFile = None\<rparr>"
  have e: "Parse noMultilineText codeAlwaysMatches newParser unknownKindOutput None = Inr ?p"
    by code_simp
  have "\<forall>tag \<in> set (tags ?p).
          Kind tag \<noteq> ''function'' \<and> Kind tag \<noteq> ''prototype'' \<longrightarrow> SkipMe tag"
    by (rule unknown_kind_suppressed[OF e])
  then have "map SkipMe (tags ?p) = [True]" by simp
  moreover have "map Kind (tags ?p) = [''variable'']" by simp
  ultimately show ?thesis using e by (intro exI[of _ ?p] conjI)
qed

text \<open>
  C5. Every tag that the pipeline returns and whose class, struct or namespace field is
  not empty is suppressed, also when its kind is \<open>function\<close> or \<open>prototype\<close>.
\<close>

theorem scoped_tag_suppressed:
  assumes "Parse findTemplateMultiline prototypeAndCodeDontMatch p ctagsOutput mf = Inr p'"
  shows "\<forall>tag \<in> set (tags p').
           Class tag \<noteq> [] \<or> Struct tag \<noteq> [] \<or> Namespace tag \<noteq> [] \<longrightarrow> SkipMe tag"
proof -
  let ?R = "\<lambda>t t'. decodedFields t' = decodedFields t \<and> (SkipMe t \<longrightarrow> SkipMe t')"
  from Parse_stages[OF assms] obtain ts0 where
    R: "list_all2 ?R (skipTagsWhere tagIsUnhandled (skipTagsWhere tagIsUnknown ts0)) (tags p')"
    by blast
  let ?ts1 = "skipTagsWhere tagIsUnknown ts0"
  have len: "length (tags p') = length ?ts1"
    using list_all2_lengthD[OF R] by (simp add: length_skipTagsWhere)
  show ?thesis
  proof (intro ballI impI)
    fix tag assume "tag \<in> set (tags p')"
      and k: "Class tag \<noteq> [] \<or> Struct tag \<noteq> [] \<or> Namespace tag \<noteq> []"
    then obtain i where i: "i < length (tags p')" and tag: "tag = tags p' ! i"
      by (auto simp: in_set_conv_nth)
    from i len have i1: "i < length ?ts1" by simp
    have Ri: "?R (skipTagsWhere tagIsUnhandled ?ts1 ! i) (tags p' ! i)"
      using list_all2_nthD2[OF R i] .
    note d = decodedFields_eqD[OF conjunct1[OF Ri]]
    have "Class (?ts1 ! i) = Class tag" "Struct (?ts1 ! i) = Struct tag"
      "Namespace (?ts1 ! i) = Namespace tag"
      using d(7,8,9) i1 tag by (simp_all add: skipTagsWhere_nth[of i ?ts1])
    then have "tagIsUnhandled (?ts1 ! i)" using k by (auto simp: tagIsUnhandled_def isHandled_def)
    then have "SkipMe (skipTagsWhere tagIsUnhandled ?ts1 ! i)"
      using i1 by (simp add: skipTagsWhere_nth[of i ?ts1])
    then show "SkipMe tag" using Ri tag by blast
  qed
qed

theorem scoped_tag_suppressed_witness:
  "(\<exists>p'. Parse noMultilineText codeAlwaysMatches newParser memberFunctionOutput None = Inr p'
      \<and> map Kind (tags p') = [''function''] \<and> map Class (tags p') = [''Motor'']
      \<and> map SkipMe (tags p') = [True])"
proof -
  let ?p = "\<lparr>tags = [\<lparr>FunctionName = ''begin'', Kind = ''function'', Line = 4,
                Code = ''  void begin() {'', Class = ''Motor'', Struct = [], Namespace = [],
                Filename = ''sketch.ino'', Typeref = [], SkipMe = True, Signature = ''()'',
                Prototype = ''void begin();'', PrototypeModifiers = []\<rparr>],
             mainFile = None\<rparr>"
  have e: "Parse noMultilineText codeAlwaysMatches newParser memberFunctionOutput None = Inr ?p"
    by code_simp
  have "\<forall>tag \<in> set (tags ?p).
          Class tag \<noteq> [] \<or> Struct tag \<noteq> [] \<or> Namespace tag \<noteq> [] \<longrightarrow> SkipMe tag"
    by (rule scoped_tag_suppressed[OF e])
  then have "map SkipMe (tags ?p) = [True]" by simp
  moreover have "map Kind (tags ?p) = [''function'']" "map Class (tags ?p) = [''Motor'']"
    by simp_all
  ultimately show ?thesis using e by (intro exI[of _ ?p] conjI)
qed

section \<open>The shadow resolver\<close>

text \<open>
  C1 (as the specification states it, refuted). In the end-to-end scenario, one function
  tag and one prototype tag that both bear the declaration \<open>void foo();\<close>, the pipeline
  returns both tags suppressed: the prototype tag is not kept.
\<close>

theorem prototype_tag_kept_counterexample:
  "Parse noMultilineText codeAlwaysMatches newParser endToEndOutput None =
     Inr \<lparr>tags =
        [\<lparr>FunctionName = ''foo'', Kind = ''function'', Line = 3, Code = ''void foo() {'',
           Class = [], Struct = [], Namespace = [], Filename = ''sketch.ino'', Typeref = [],
           SkipMe = True, Signature = ''()'', Prototype = ''void foo();'',
           PrototypeModifiers = []\<rparr>,
         \<lparr>FunctionName = ''foo'', Kind = ''prototype'', Line = 1, Code = ''void foo();'',
           Class = [], Struct = [], Namespace = [], Filename = ''sketch.ino'', Typeref = [],
           SkipMe = True, Signature = ''()'', Prototype = ''void foo();'',
           PrototypeModifiers = []\<rparr>],
      mainFile = None\<rparr>"
  using endToEnd_run by (simp add: endToEndResult_def)

text \<open>
  C1 (amended). Every tag that the pipeline returns and whose declaration is the
  declaration of a returned tag of kind \<open>prototype\<close> is suppressed, and so is that
  prototype tag itself: of a prototype tag with the declaration \<open>void foo();\<close> and a
  function tag with the same declaration, both are suppressed.
\<close>

theorem explicit_prototype_shadows:
  assumes "Parse findTemplateMultiline prototypeAndCodeDontMatch p ctagsOutput mf = Inr p'"
  shows "\<forall>tag \<in> set (tags p'). \<forall>proto \<in> set (tags p').
           Kind proto = ''prototype'' \<and> Prototype tag = Prototype proto \<longrightarrow> SkipMe tag"
proof -
  from Parse_stages[OF assms] obtain ts3 where
    s3: "list_all2 suppressesOnly ts3 (tags p')"
    and s4: "list_all2 suppressesOnly (removeDefinedProtypes ts3) (tags p')" by blast
  have len: "length (tags p') = length ts3" using list_all2_lengthD[OF s3] by simp
  show ?thesis
  proof (intro ballI impI)
    fix tag proto
    assume "tag \<in> set (tags p')" "proto \<in> set (tags p')"
      and h: "Kind proto = ''prototype'' \<and> Prototype tag = Prototype proto"
    then obtain i j where i: "i < length (tags p')" "tag = tags p' ! i"
      and j: "j < length (tags p')" "proto = tags p' ! j"
      by (auto simp: in_set_conv_nth)
    have fi: "suppressesOnly (ts3 ! i) tag" using list_all2_nthD2[OF s3 i(1)] i(2) by simp
    have fj: "suppressesOnly (ts3 ! j) proto" using list_all2_nthD2[OF s3 j(1)] j(2) by simp
    have "Kind (ts3 ! j) = ''prototype''"
      using decodedFields_eqD(3)[OF suppressesOnly_fields(1)[OF fj]] h by simp
    moreover have "Prototype (ts3 ! j) = Prototype (ts3 ! i)"
      using suppressesOnly_fields(2)[OF fi] suppressesOnly_fields(2)[OF fj] h by simp
    moreover have "ts3 ! j \<in> set ts3" using j(1) len by simp
    ultimately have "\<exists>t \<in> set ts3. Kind t = ''prototype'' \<and> Prototype t = Prototype (ts3 ! i)"
      by blast
    then have "SkipMe (removeDefinedProtypes ts3 ! i)"
      using i(1) len by (simp add: removeDefinedProtypes_nth)
    moreover have "suppressesOnly (removeDefinedProtypes ts3 ! i) tag"
      using list_all2_nthD2[OF s4 i(1)] i(2) by simp
    ultimately show "SkipMe tag" using suppressesOnly_fields(4) by blast
  qed
qed

theorem explicit_prototype_shadows_witness:
  "(\<exists>p'. Parse noMultilineText codeAlwaysMatches newParser endToEndOutput None = Inr p'
      \<and> map Kind (tags p') = [''function'', ''prototype'']
      \<and> map Prototype (tags p') = [''void foo();'', ''void foo();'']
      \<and> map SkipMe (tags p') = [True, True])"
proof -
  note e = endToEnd_run
  have "\<forall>tag \<in> set (tags endToEndResult). \<forall>proto \<in> set (tags endToEndResult).
           Kind proto = ''prototype'' \<and> Prototype tag = Prototype proto \<longrightarrow> SkipMe tag"
    by (rule explicit_prototype_shadows[OF e])
  then have "map SkipMe (tags endToEndResult) = [True, True]"
    by (simp add: endToEndResult_def)
  moreover have "map Kind (tags endToEndResult) = [''function'', ''prototype'']"
    "map Prototype (tags endToEndResult) = [''void foo();'', ''void foo();'']"
    by (simp_all add: endToEndResult_def)
  ultimately show ?thesis using e by (intro exI[of _ endToEndResult] conjI)
qed

section \<open>The order of the returned tags\<close>

text \<open>
  C9. The returned list consists of the tags that the parser held before the call, if any,
  followed by one tag for each non-blank row of the buffer, in the order of the rows: the
  tag at each position has the decoded fields of the row at that position. No stage
  reorders, inserts or removes a tag, so the kept tags, the returned tags that are not
  suppressed, are a subsequence of the returned list.
\<close>

theorem order_preserved:
  assumes "Parse findTemplateMultiline prototypeAndCodeDontMatch p ctagsOutput mf = Inr p'"
  shows "length (tags p') = length (tags p) + length (removeEmpty (strings_Split ctagsOutput NL))
    \<and> (\<forall>i<length (tags p). decodedFields (tags p' ! i) = decodedFields (tags p ! i))
    \<and> (\<forall>i<length (removeEmpty (strings_Split ctagsOutput NL)).
          \<exists>tag. parseTag (removeEmpty (strings_Split ctagsOutput NL) ! i) = Inr tag
             \<and> decodedFields (tags p' ! (length (tags p) + i)) = decodedFields tag)
    \<and> subseq (filter (\<lambda>tag. \<not> SkipMe tag) (tags p')) (tags p')"
proof -
  let ?rows = "removeEmpty (strings_Split ctagsOutput NL)"
  let ?R = "\<lambda>t t'. decodedFields t' = decodedFields t \<and> (SkipMe t \<longrightarrow> SkipMe t')"
  from Parse_stages[OF assms] obtain ts0 where
    r: "parseRows (tags p) ?rows = Inr ts0" and R: "list_all2 ?R ts0 (tags p')" by blast
  from parseRows_result[OF r] obtain new where
    ts0: "ts0 = tags p @ new" and d: "list_all2 (\<lambda>row tag. parseTag row = Inr tag) ?rows new"
    by blast
  have ln: "length new = length ?rows" using list_all2_lengthD[OF d] by simp
  have len: "length (tags p') = length (tags p) + length ?rows"
    using list_all2_lengthD[OF R] ts0 ln by simp
  have old: "decodedFields (tags p' ! i) = decodedFields (tags p ! i)" if "i < length (tags p)" for i
  proof -
    have "i < length (tags p')" using that len by simp
    from list_all2_nthD2[OF R this] show ?thesis using that ts0 by (simp add: nth_append)
  qed
  have fresh: "\<exists>tag. parseTag (?rows ! i) = Inr tag
                 \<and> decodedFields (tags p' ! (length (tags p) + i)) = decodedFields tag"
    if "i < length ?rows" for i
  proof -
    have "length (tags p) + i < length (tags p')" using that len by simp
    from list_all2_nthD2[OF R this]
    have "decodedFields (tags p' ! (length (tags p) + i)) = decodedFields (new ! i)"
      using ts0 by simp
    moreover have "parseTag (?rows ! i) = Inr (new ! i)" using list_all2_nthD[OF d that] .
    ultimately show ?thesis by blast
  qed
  show ?thesis using len old fresh by simp
qed

theorem order_preserved_witness:
  "(\<exists>p'. Parse noMultilineText codeAlwaysMatches newParser endToEndOutput None = Inr p'
      \<and> length (tags p') = 2
      \<and> map Line (tags p') = [3, 1])"
proof -
  note e = endToEnd_run
  note t = order_preserved[OF e]
  have l: "length (removeEmpty (strings_Split endToEndOutput NL)) = 2"
    by (simp add: endToEnd_rows)
  have "length (tags endToEndResult) = 2" using t l by (simp add: newParser_def)
  moreover have "map Line (tags endToEndResult) = [3, 1]" by (simp add: endToEndResult_def)
  ultimately show ?thesis using e by (intro exI[of _ endToEndResult] conjI)
qed

section \<open>Three tags with one declaration\<close>




section \<open>Template declarations\<close>

text \<open>
  C2 (as the specification states it, refuted). For the tag with the snippet
  \<open>template <typename T> T add(T a, T b) {\<close> the synthesizer takes the text before the
  \<open>{\<close> with the space that ends it, so that the declaration is
  \<open>template <typename T> T add(T a, T b) ;\<close> and not
  \<open>template <typename T> T add(T a, T b);\<close>.
\<close>

theorem template_example_counterexample:
  "addPrototype noMultilineText templateAddTag
     = Inr (templateAddTag\<lparr>Prototype := ''template <typename T> T add(T a, T b) ;''\<rparr>)
   \<and> ''template <typename T> T add(T a, T b) ;'' \<noteq> ''template <typename T> T add(T a, T b);''"
  by code_simp

text \<open>
  C2 (amended). For every tag that is not suppressed and whose declaration and snippet
  both begin with \<open>template\<close>, the synthesizer rebuilds the declaration from the
  snippet: everything up to the first \<open>{\<close> if one is present, otherwise everything up to
  and including the last \<open>)\<close>, with \<open>;\<close> appended; nothing else of the tag changes.
  For the snippet \<open>template <typename T> T add(T a, T b) {\<close> this is
  \<open>template <typename T> T add(T a, T b) ;\<close>.
\<close>

theorem template_rebuilt_from_snippet:
  assumes "i < length ts" and "\<not> SkipMe (ts ! i)"
    and "prefix ''template'' (Prototype (ts ! i))" and "prefix ''template'' (Code (ts ! i))"
  shows "\<exists>ts'. addPrototypes findTemplateMultiline ts = Inr ts' \<and> length ts' = length ts
           \<and> ts' ! i = (ts ! i)\<lparr>Prototype := rebuildFromSnippet (Code (ts ! i))\<rparr>"
proof -
  obtain ts' where a: "addPrototypes findTemplateMultiline ts = Inr ts'"
    using addPrototypes_Inr[of findTemplateMultiline ts] by blast
  from addPrototypes_nth[OF a assms(1,2)] addPrototype_template[OF assms(3,4)]
  have "length ts' = length ts
          \<and> ts' ! i = (ts ! i)\<lparr>Prototype := rebuildFromSnippet (Code (ts ! i))\<rparr>" by simp
  with a show ?thesis by blast
qed

theorem template_rebuilt_from_snippet_witness:
  "(\<exists>ts'. addPrototypes noMultilineText [templateAddTag] = Inr ts'
      \<and> Code (ts' ! 0) = ''template <typename T> T add(T a, T b) {''
      \<and> Prototype (ts' ! 0) = ''template <typename T> T add(T a, T b) ;'')"
proof -
  have h: "0 < length [templateAddTag]" "\<not> SkipMe ([templateAddTag] ! 0)"
    "prefix ''template'' (Prototype ([templateAddTag] ! 0))"
    "prefix ''template'' (Code ([templateAddTag] ! 0))"
    by (simp_all add: templateAddTag_def)
  from template_rebuilt_from_snippet[OF h, of noMultilineText]
  obtain ts' where a: "addPrototypes noMultilineText [templateAddTag] = Inr ts'"
    and t: "ts' ! 0 = templateAddTag\<lparr>Prototype := rebuildFromSnippet (Code templateAddTag)\<rparr>"
    by auto
  have "rebuildFromSnippet (Code templateAddTag) = ''template <typename T> T add(T a, T b) ;''"
    by (simp add: rebuildFromSnippet_def templateAddTag_def)
  with t have "Code (ts' ! 0) = ''template <typename T> T add(T a, T b) {''"
    "Prototype (ts' ! 0) = ''template <typename T> T add(T a, T b) ;''"
    by (simp_all add: templateAddTag_def)
  with a show ?thesis by blast
qed

section \<open>The line field\<close>

text \<open>
  C8 (as the specification states it, refuted). \<open>strconv.Atoi\<close> fails on the twenty
  digits \<open>99999999999999999999\<close> with a range error and returns the largest \<open>int\<close>
  with it; the decoder drops the error and keeps the value, so that the line of the tag is
  9223372036854775807 and not 0.
\<close>

theorem unparseable_line_counterexample:
  "Atoi ''99999999999999999999'' = (9223372036854775807, Some ErrRange)
   \<and> parseTag overflowLineRow =
       Inr \<lparr>FunctionName = ''foo'', Kind = ''function'', Line = 9223372036854775807,
            Code = [], Class = [], Struct = [], Namespace = [], Filename = ''sketch.ino'',
            Typeref = [], SkipMe = False, Signature = ''()'', Prototype = ''void foo();'',
            PrototypeModifiers = []\<rparr>"
  by code_simp

text \<open>
  C8 (amended). On every row that the decoder decodes, a row with a tab whose snippet
  markers are in order (the markers are searched in the whole row, the value of a
  \<open>line\<close> field included), a value of the \<open>line\<close> field that is not a number raises
  no error: the line of the tag is the value that \<open>strconv.Atoi\<close> returns, its error
  dropped, for the trimmed value of the last \<open>line\<close> field, and zero without such a
  field. That value is 0 when \<open>Atoi\<close> reports a syntax error, as it does for every
  string of at most 19 bytes that is not an optional sign followed by decimal digits, and
  9223372036854775807 or -9223372036854775808 when \<open>Atoi\<close> reports a range error. The
  other fields are decoded as section 4.1 of the specification describes, from the fields
  of their own keys: the tag of a decoded row with the same name, the same file and the
  same fields apart from the \<open>line\<close> fields differs at most in the line and in the
  snippet, which is cut from the whole row.
\<close>

theorem line_field_never_fails:
  assumes "rowDecodable row"
  shows "\<exists>tag. parseTag row = Inr tag \<and> tag = decodedTag row
    \<and> Line tag = (case fieldValue ''line'' (fieldsOf row) of None \<Rightarrow> 0 | Some v \<Rightarrow> fst (Atoi v))
    \<and> (\<forall>v. fieldValue ''line'' (fieldsOf row) = Some v \<longrightarrow>
          (snd (Atoi v) = Some ErrSyntax \<longrightarrow> Line tag = 0)
        \<and> (snd (Atoi v) = Some ErrRange
              \<longrightarrow> Line tag = 9223372036854775807 \<or> Line tag = - 9223372036854775808)
        \<and> (\<not> isDecimal v \<and> length v \<le> 19 \<longrightarrow> Line tag = 0))
    \<and> (\<forall>row' tag'.
          parseTag row' = Inr tag'
          \<and> strings_Split row' TAB ! 0 = strings_Split row TAB ! 0
          \<and> strings_Split row' TAB ! 1 = strings_Split row TAB ! 1
          \<and> filter (\<lambda>p. \<not> prefix ''line:'' p) (fieldsOf row')
               = filter (\<lambda>p. \<not> prefix ''line:'' p) (fieldsOf row)
          \<longrightarrow> tag'\<lparr>Line := Line tag, Code := Code tag\<rparr> = tag)"
proof -
  have tab: "TAB \<in> set row" using assms by (simp add: rowDecodable_def)
  have p: "parseTag row = Inr (decodedTag row)"
    using parseTag_decodedTag[of row] assms tab by simp
  have l: "Line (decodedTag row)
             = (case fieldValue ''line'' (fieldsOf row) of None \<Rightarrow> 0 | Some v \<Rightarrow> fst (Atoi v))"
    by (simp add: decodedTag_def)
  have a: "(snd (Atoi v) = Some ErrSyntax \<longrightarrow> Line (decodedTag row) = 0)
        \<and> (snd (Atoi v) = Some ErrRange
              \<longrightarrow> Line (decodedTag row) = 9223372036854775807
                  \<or> Line (decodedTag row) = - 9223372036854775808)
        \<and> (\<not> isDecimal v \<and> length v \<le> 19 \<longrightarrow> Line (decodedTag row) = 0)"
    if "fieldValue ''line'' (fieldsOf row) = Some v" for v
    using that l Atoi_error_values[of v] Atoi_syntax_error[of v]
    by (auto simp: maxInt64_def minInt64_def)
  have o: "tag'\<lparr>Line := Line (decodedTag row), Code := Code (decodedTag row)\<rparr> = decodedTag row"
    if "parseTag row' = Inr tag'"
      and "strings_Split row' TAB ! 0 = strings_Split row TAB ! 0"
      and "strings_Split row' TAB ! 1 = strings_Split row TAB ! 1"
      and "filter (\<lambda>p. \<not> prefix ''line:'' p) (fieldsOf row')
               = filter (\<lambda>p. \<not> prefix ''line:'' p) (fieldsOf row)"
    for row' tag'
  proof -
    have "tag' = decodedTag row'"
      using that(1) parseTag_decodedTag[of row'] by (auto split: if_splits)
    then show ?thesis using decodedTag_without_line[OF that(2,3,4)] by simp
  qed
  show ?thesis using p l a o by blast
qed

theorem line_field_never_fails_witness:
  "rowDecodable badLineRow
   \<and> fieldValue ''line'' (fieldsOf badLineRow) = Some ''abc''
   \<and> \<not> isDecimal ''abc'' \<and> length ''abc'' \<le> 19
   \<and> parseTag goodLineRow =
       Inr \<lparr>FunctionName = ''foo'', Kind = ''function'', Line = 7,
            Code = [], Class = [], Struct = [], Namespace = [], Filename = ''sketch.ino'',
            Typeref = [], SkipMe = False, Signature = ''()'', Prototype = ''void foo();'',
            PrototypeModifiers = []\<rparr>
   \<and> parseTag badLineRow =
       Inr \<lparr>FunctionName = ''foo'', Kind = ''function'', Line = 0,
            Code = [], Class = [], Struct = [], Namespace = [], Filename = ''sketch.ino'',
            Typeref = [], SkipMe = False, Signature = ''()'', Prototype = ''void foo();'',
            PrototypeModifiers = []\<rparr>"
proof -
  let ?good = "\<lparr>FunctionName = ''foo'', Kind = ''function'', Line = 7,
            Code = [], Class = [], Struct = [], Namespace = [], Filename = ''sketch.ino'',
            Typeref = [], SkipMe = False, Signature = ''()'', Prototype = ''void foo();'',
            PrototypeModifiers = []\<rparr>"
  have d: "rowDecodable badLineRow" by code_simp
  have v: "fieldValue ''line'' (fieldsOf badLineRow) = Some ''abc''" by code_simp
  have h: "\<not> isDecimal ''abc'' \<and> length ''abc'' \<le> 19"
    by (simp add: isDecimal_def isDigit_def)
  have g: "parseTag goodLineRow = Inr ?good" by code_simp
  have same: "strings_Split goodLineRow TAB ! 0 = strings_Split badLineRow TAB ! 0"
    "strings_Split goodLineRow TAB ! 1 = strings_Split badLineRow TAB ! 1"
    "filter (\<lambda>p. \<not> prefix ''line:'' p) (fieldsOf goodLineRow)
       = filter (\<lambda>p. \<not> prefix ''line:'' p) (fieldsOf badLineRow)"
    by code_simp+
  from line_field_never_fails[OF d] obtain tag where
    e: "parseTag badLineRow = Inr tag"
    and z: "\<forall>v. fieldValue ''line'' (fieldsOf badLineRow) = Some v \<longrightarrow>
              (\<not> isDecimal v \<and> length v \<le> 19 \<longrightarrow> Line tag = 0)"
    and o: "\<forall>row' tag'.
          parseTag row' = Inr tag'
          \<and> strings_Split row' TAB ! 0 = strings_Split badLineRow TAB ! 0
          \<and> strings_Split row' TAB ! 1 = strings_Split badLineRow TAB ! 1
          \<and> filter (\<lambda>p. \<not> prefix ''line:'' p) (fieldsOf row')
               = filter (\<lambda>p. \<not> prefix ''line:'' p) (fieldsOf badLineRow)
          \<longrightarrow> tag'\<lparr>Line := Line tag, Code := Code tag\<rparr> = tag"
    by blast
  from z v h have l0: "Line tag = 0" by blast
  have b: "parseTag badLineRow =
       Inr \<lparr>FunctionName = ''foo'', Kind = ''function'', Line = 0,
            Code = [], Class = [], Struct = [], Namespace = [], Filename = ''sketch.ino'',
            Typeref = [], SkipMe = False, Signature = ''()'', Prototype = ''void foo();'',
            PrototypeModifiers = []\<rparr>"
    by code_simp
  from o g same have n: "?good\<lparr>Line := Line tag, Code := Code tag\<rparr> = tag" by blast
  from d v h g b l0 n show ?thesis by blast
qed

section \<open>Rows that the decoder cannot decode\<close>

text \<open>
  C3 (as the specification states it, refuted). A buffer whose only line is \<open>foo\<close> has
  no second tab-separated field: \<open>parseTag\<close> panics at \<open>parts[1]\<close>, and so does
  \<open>Parse\<close>. A row in which \<open>$/;\<close> comes before \<open>/^\<close> makes the slice expression of
  the snippet panic.
\<close>

theorem never_aborts_counterexample:
  "Parse noMultilineText codeAlwaysMatches newParser ''foo'' None = Inl IndexOutOfRange
   \<and> Parse noMultilineText codeAlwaysMatches newParser
        (''foo'' @ [TAB] @ ''sketch.ino'' @ [TAB] @ ''$/;/^'') None = Inl SliceBoundsOutOfRange"
  by code_simp

text \<open>
  C3 (amended). For every buffer in which every non-blank line, trimmed, has a tab, so
  that the name and the file both exist, and has its snippet markers in order (the first
  \<open>/^\<close> ends at or before the start of the first \<open>$/;\<close>, when both occur), the
  pipeline returns, for any \<open>findTemplateMultiline\<close> and
  \<open>prototypeAndCodeDontMatch\<close> that return, and the tags it decodes are those that
  section 4.1 of the specification describes: fields in any order, unknown keys and fields
  without a colon do not stop the decoder, every recognised key keeps the trimmed value
  of its last field, the line number being what \<open>strconv.Atoi\<close> makes of it, and every
  field whose key is in no field of the row has the empty string or zero. The condition
  on the lines is necessary as well: on a row without a tab the decoder panics with an
  index out of range, on a row with its markers out of order with slice bounds out of
  range, and the pipeline returns for no buffer with such a line.
\<close>

theorem decoding_completes_iff_rows_decodable:
  "((\<exists>p'. Parse findTemplateMultiline prototypeAndCodeDontMatch p ctagsOutput mf = Inr p')
      \<longleftrightarrow> (\<forall>row \<in> set (removeEmpty (strings_Split ctagsOutput NL)). rowDecodable row))
   \<and> ((\<forall>row \<in> set (removeEmpty (strings_Split ctagsOutput NL)). rowDecodable row) \<longrightarrow>
        parseRows (tags p) (removeEmpty (strings_Split ctagsOutput NL))
          = Inr (tags p @ map decodedTag (removeEmpty (strings_Split ctagsOutput NL))))
   \<and> parseTag row =
        (if TAB \<notin> set row then Inl IndexOutOfRange
         else if \<not> rowDecodable row then Inl SliceBoundsOutOfRange
         else Inr (decodedTag row))
   \<and> (parseTag row = Inr tag \<longrightarrow> absentFieldsDefault row tag)"
  using Parse_succeeds_iff[of findTemplateMultiline prototypeAndCodeDontMatch p ctagsOutput mf]
    parseRows_decoded[of "removeEmpty (strings_Split ctagsOutput NL)" "tags p"]
    parseTag_decodedTag[of row] parseTag_defaults(1)[of row tag]
  by blast

theorem decoding_completes_iff_rows_decodable_witness:
  "rowDecodable mixedRow
   \<and> hasField mixedRow ''signature'' \<and> hasField mixedRow ''line''
   \<and> hasField mixedRow ''kind'' \<and> hasField mixedRow ''returntype''
   \<and> \<not> hasField mixedRow ''class''
   \<and> parseTag mixedRow = Inr mixedTag
   \<and> (\<exists>p'. Parse noMultilineText codeAlwaysMatches newParser mixedRow None = Inr p')
   \<and> Kind mixedTag = ''function'' \<and> Line mixedTag = 12 \<and> Signature mixedTag = ''(int n)''
   \<and> Prototype mixedTag = ''void loop(int n);'' \<and> Class mixedTag = []"
proof -
  note t = decoding_completes_iff_rows_decodable[of noMultilineText codeAlwaysMatches
      newParser mixedRow None mixedRow mixedTag]
  have d: "rowDecodable mixedRow" by code_simp
  have tab: "TAB \<in> set mixedRow" by (simp add: mixedRow_def)
  have r: "removeEmpty (strings_Split mixedRow NL) = [mixedRow]" by code_simp
  have dt: "decodedTag mixedRow = mixedTag" by code_simp
  from t d tab dt have e: "parseTag mixedRow = Inr mixedTag" by simp
  from t d r have p: "\<exists>p'. Parse noMultilineText codeAlwaysMatches newParser mixedRow None = Inr p'"
    by simp
  from t e have a: "absentFieldsDefault mixedRow mixedTag" by blast
  have h: "hasField mixedRow ''signature''" "hasField mixedRow ''line''"
    "hasField mixedRow ''kind''" "hasField mixedRow ''returntype''"
    "\<not> hasField mixedRow ''class''"
    by code_simp+
  from a h(5) have c: "Class mixedTag = []" unfolding absentFieldsDefault_def by blast
  have f: "Kind mixedTag = ''function''" "Line mixedTag = 12" "Signature mixedTag = ''(int n)''"
    "Prototype mixedTag = ''void loop(int n);''"
    by (simp_all add: mixedTag_def)
  from d h e p f c show ?thesis by blast
qed


end
